theory Spec2Isabelle
  imports Complex_Main "HOL-Library.Sublist" "HOL-Library.Word"
begin

section \<open>SQLite2Excel: a model of \<open>sqlite_to_xlsx_converter.py\<close>\<close>

text \<open>
  The program has two classes. \<open>ConverterWindow\<close> derives the path of the workbook from
  the path of the database (\<open>set_save_path\<close>); \<open>Converter\<close> is a thread whose \<open>run\<close>
  method lists the tables of the database, copies each of them into a worksheet, reports
  progress through Qt signals and finally closes the workbook.

  Python exceptions are values of \<open>py_exn\<close>; a function that may raise returns a sum whose
  left injection is the exception, or a pair of the state reached and the exception.
\<close>

datatype py_exn =
    SqliteError string      \<comment> \<open>\<open>sqlite3.Error\<close> and its subclasses, with the message\<close>
  | XlsxError string        \<comment> \<open>an exception raised inside \<open>xlsxwriter\<close>\<close>
  | OtherError string       \<comment> \<open>any other exception raised by a library call\<close>
  | AttributeError
  | IndexError
  | TypeError
  | ZeroDivisionError
  | SystemExit              \<comment> \<open>raised by \<open>sys.exit()\<close>\<close>

subsection \<open>\<open>ConverterWindow.set_save_path\<close>\<close>

text \<open>
  The values that the local variables of \<open>set_save_path\<close> can hold: a string, a list or
  \<open>None\<close>.
\<close>

datatype py_obj = PyStr string | PyList "py_obj list" | PyNone

text \<open>\<open>s.split(sep)\<close> for a one-character separator: the pieces between the separators.\<close>

fun split_acc :: "char \<Rightarrow> string \<Rightarrow> string \<Rightarrow> string list" where
  "split_acc sep acc [] = [rev acc]"
| "split_acc sep acc (c # cs) =
     (if c = sep then rev acc # split_acc sep [] cs else split_acc sep (c # acc) cs)"

definition split :: "string \<Rightarrow> char \<Rightarrow> string list" where
  "split s sep = split_acc sep [] s"

text \<open>\<open>isinstance(x, list)\<close>.\<close>

fun isinstance_list :: "py_obj \<Rightarrow> bool" where
  "isinstance_list (PyList _) = True"
| "isinstance_list _ = False"

text \<open>\<open>len(x)\<close>: defined on strings and lists, \<open>TypeError\<close> on \<open>None\<close>.\<close>

fun py_len :: "py_obj \<Rightarrow> py_exn + nat" where
  "py_len (PyStr s) = Inr (length s)"
| "py_len (PyList xs) = Inr (length xs)"
| "py_len PyNone = Inl TypeError"

text \<open>
  \<open>s[:-idx]\<close> for \<open>idx \<ge> 0\<close>: all but the last \<open>idx\<close> characters; \<open>s[:-0]\<close> is \<open>s[:0]\<close>, the
  empty string.
\<close>

definition slice_to_neg :: "string \<Rightarrow> nat \<Rightarrow> string" where
  "slice_to_neg s idx = (if idx = 0 then [] else take (length s - idx) s)"

definition known_extensions :: "py_obj list" where
  "known_extensions = [PyStr ''db'', PyStr ''sqlite'', PyStr ''sqlite3'', PyStr ''db3'']"

text \<open>
  \<open>set_save_path\<close> reads \<open>self.file_path\<close> and assigns \<open>self.save_path\<close>; the model takes
  the one and returns the other. \<open>split\<close> never returns an empty list, so \<open>[-1]\<close> is \<open>last\<close>.
\<close>

definition set_save_path :: "string \<Rightarrow> py_exn + string" where
  "set_save_path file_path =
     (let check_extension = PyStr (last (split file_path CHR ''.''));
          extension = (if isinstance_list check_extension then check_extension else PyNone)
      in if extension \<in> set known_extensions
         then (case py_len extension of
                 Inl e \<Rightarrow> Inl e
               | Inr idx \<Rightarrow> Inr (slice_to_neg file_path idx @ ''xlsx''))
         else Inr (file_path @ ''.xlsx''))"

text \<open>
  The destination as the specification words it: a known database extension (\<open>.db\<close>,
  \<open>.sqlite\<close>, \<open>.sqlite3\<close>, \<open>.db3\<close>) is stripped and \<open>.xlsx\<close> appended; any other path
  gets \<open>.xlsx\<close> appended unchanged.
\<close>

definition spec_save_path :: "string \<Rightarrow> string" where
  "spec_save_path p =
     (case filter (\<lambda>e. suffix e p) [''.db'', ''.sqlite'', ''.sqlite3'', ''.db3''] of
        [] \<Rightarrow> p @ ''.xlsx''
      | e # _ \<Rightarrow> take (length p - length e) p @ ''.xlsx'')"

subsection \<open>Values, tables and worksheets\<close>

text \<open>
  The values the \<open>sqlite3\<close> driver returns for a cell: \<open>None\<close>, an \<open>int\<close>, a \<open>float\<close> (the
  64 bits of the double), a \<open>str\<close> or \<open>bytes\<close>.
\<close>

datatype sql_value =
    SqlNull
  | SqlInteger int
  | SqlReal "64 word"
  | SqlText string
  | SqlBlob "8 word list"

text \<open>
  A cursor after \<open>execute\<close>: \<open>description\<close> holds the first component of each entry of
  \<open>cur.description\<close> (the column name), \<open>fetchall\<close> the rows that \<open>cur.fetchall()\<close> returns.
\<close>

record cursor =
  description :: "string list"
  fetchall :: "sql_value list list"

text \<open>
  The two libraries are outside the program; what they answer is a parameter of the
  model. \<open>connect\<close> is \<open>sqlite3.connect\<close>, \<open>execute\<close> is \<open>cursor.execute\<close> on a cursor of
  the connection.
\<close>

record 'conn sqlite3 =
  connect :: "string \<Rightarrow> py_exn + 'conn"
  execute :: "'conn \<Rightarrow> string \<Rightarrow> py_exn + cursor"

text \<open>
  A worksheet is its name and the calls of \<open>worksheet.write(row, col, value)\<close> it has
  received, in order. A workbook is the file name it was created with, its worksheets in
  the order of creation, and whether \<open>close\<close> has stored it.
\<close>

record worksheet =
  sheet_name :: string
  cells :: "(nat \<times> nat \<times> sql_value) list"

record workbook =
  filename :: string
  worksheets :: "worksheet list"
  fileclosed :: bool

text \<open>
  \<open>check_sheetname\<close> is the check \<open>add_worksheet\<close> makes on a name, given the names
  already in the workbook: it raises, or returns the name the sheet gets.
  \<open>store_workbook\<close> is the writing of the file by \<open>close\<close>, which may raise.
\<close>

record xlsxwriter =
  check_sheetname :: "string list \<Rightarrow> string \<Rightarrow> py_exn + string"
  store_workbook :: "workbook \<Rightarrow> py_exn option"

definition Workbook :: "string \<Rightarrow> workbook" where
  "Workbook path = \<lparr>filename = path, worksheets = [], fileclosed = False\<rparr>"

definition close :: "xlsxwriter \<Rightarrow> workbook \<Rightarrow> workbook \<times> py_exn option" where
  "close lib wb =
     (case store_workbook lib wb of
        Some e \<Rightarrow> (wb, Some e)
      | None \<Rightarrow> (wb\<lparr>fileclosed := True\<rparr>, None))"

subsection \<open>\<open>Converter.select_table\<close>\<close>

definition quote :: char where
  "quote = CHR 0x27"

text \<open>\<open>"SELECT * FROM '{}'".format(table)\<close>.\<close>

definition select_query :: "string \<Rightarrow> string" where
  "select_query table = ''SELECT * FROM '' @ [quote] @ table @ [quote]"

text \<open>
  The rows of the table with the list of column names inserted in front. An exception of
  \<open>execute\<close> propagates.
\<close>

definition select_table :: "'conn sqlite3 \<Rightarrow> 'conn \<Rightarrow> string \<Rightarrow> py_exn + sql_value list list" where
  "select_table db conn table =
     (case execute db conn (select_query table) of
        Inl e \<Rightarrow> Inl e
      | Inr cur \<Rightarrow>
          (let rows = fetchall cur;
               col_names = map SqlText (description cur)
           in Inr (col_names # rows)))"

subsection \<open>\<open>Converter.write_table_to_workbook\<close>\<close>

text \<open>
  The inner loop, \<open>for col_number in cols: worksheet.write(row_number, col_number,
  row[col_number])\<close>. Reading \<open>row[col_number]\<close> past the end of the row raises
  \<open>IndexError\<close>; the cells written before stay in the worksheet.
\<close>

fun write_row :: "worksheet \<Rightarrow> nat \<Rightarrow> sql_value list \<Rightarrow> nat list \<Rightarrow> worksheet \<times> py_exn option" where
  "write_row ws row_number row [] = (ws, None)"
| "write_row ws row_number row (col_number # cols) =
     (if col_number < length row
      then write_row (ws\<lparr>cells := cells ws @ [(row_number, col_number, row ! col_number)]\<rparr>)
             row_number row cols
      else (ws, Some IndexError))"

text \<open>The outer loop, \<open>for row_number, row in enumerate(rows)\<close>.\<close>

fun write_rows :: "worksheet \<Rightarrow> nat \<Rightarrow> sql_value list list \<Rightarrow> nat list \<Rightarrow> worksheet \<times> py_exn option" where
  "write_rows ws row_number [] cols = (ws, None)"
| "write_rows ws row_number (row # rows) cols =
     (case write_row ws row_number row cols of
        (ws', Some e) \<Rightarrow> (ws', Some e)
      | (ws', None) \<Rightarrow> write_rows ws' (Suc row_number) rows cols)"

text \<open>
  \<open>add_worksheet\<close> comes first and may raise; \<open>table[0]\<close> raises \<open>IndexError\<close> on an empty
  table. The worksheet is an object of the workbook, so what was written before an
  exception is in the workbook that the model returns beside the exception.
\<close>

definition write_table_to_workbook ::
  "xlsxwriter \<Rightarrow> workbook \<Rightarrow> sql_value list list \<Rightarrow> string \<Rightarrow> workbook \<times> py_exn option" where
  "write_table_to_workbook lib wb table worksheet_name =
     (case check_sheetname lib (map sheet_name (worksheets wb)) worksheet_name of
        Inl e \<Rightarrow> (wb, Some e)
      | Inr name \<Rightarrow>
          (let worksheet = \<lparr>sheet_name = name, cells = []\<rparr>
           in case table of
                [] \<Rightarrow> (wb\<lparr>worksheets := worksheets wb @ [worksheet]\<rparr>, Some IndexError)
              | header # _ \<Rightarrow>
                  (let cols = [0..<length header];
                       (worksheet', r) = write_rows worksheet 0 table cols
                   in (wb\<lparr>worksheets := worksheets wb @ [worksheet']\<rparr>, r))))"

subsection \<open>Python floats\<close>

text \<open>
  The progress value is computed with Python's \<open>float\<close>, an IEEE 754 binary64 number. A
  finite double is the rational it denotes; an operation returns the double nearest to
  the exact result, a tie going to the even significand. Doubles have 53 significant
  bits and exponents from \<open>- 1022\<close> on (below them the spacing stays \<open>2 powi - 1074\<close>).
  The largest double is never exceeded by the values computed here, which lie between 0
  and 100, so overflow is left out.
\<close>

text \<open>\<open>int.bit_length\<close>: the number of binary digits of a positive integer.\<close>

function bit_length :: "int \<Rightarrow> nat" where
  "bit_length n = (if n \<le> 0 then 0 else Suc (bit_length (n div 2)))"
  by pat_completeness auto
termination
  by (relation "measure nat") auto

declare bit_length.simps [simp del]

definition round_half_even :: "rat \<Rightarrow> int" where
  "round_half_even x =
     (let n = \<lfloor>x\<rfloor>; d = x - of_int n
      in if d < 1 / 2 then n else if 1 / 2 < d then n + 1 else if even n then n else n + 1)"

text \<open>The exponent \<open>e\<close> with \<open>2 powi e \<le> x < 2 powi (e + 1)\<close>, for \<open>x > 0\<close>.\<close>

definition binade :: "rat \<Rightarrow> int" where
  "binade x =
     (let (a, b) = quotient_of x;
          e = int (bit_length a) - int (bit_length b)
      in if 2 powi e \<le> x then e else e - 1)"

definition round_binary64 :: "rat \<Rightarrow> rat" where
  "round_binary64 x =
     (if x = 0 then 0
      else (let e = max (binade \<bar>x\<bar>) (- 1022) - 52;
                m = round_half_even (\<bar>x\<bar> / 2 powi e)
            in sgn x * of_int m * 2 powi e))"

text \<open>\<open>a / b\<close> on integers: the correctly rounded quotient, \<open>ZeroDivisionError\<close> for \<open>b = 0\<close>.\<close>

definition py_truediv :: "int \<Rightarrow> int \<Rightarrow> py_exn + rat" where
  "py_truediv a b =
     (if b = 0 then Inl ZeroDivisionError else Inr (round_binary64 (of_int a / of_int b)))"

text \<open>\<open>x * k\<close> for a float \<open>x\<close> and a small integer \<open>k\<close>, which converts to a float exactly.\<close>

definition py_float_mul :: "rat \<Rightarrow> int \<Rightarrow> rat" where
  "py_float_mul x k = round_binary64 (x * of_int k)"

text \<open>
  The signal \<open>update_prog\<close> is declared \<open>pyqtSignal(int)\<close> and is given a float; the
  binding converts the argument as \<open>int(x)\<close> does, by truncation toward zero (the
  specification: integer truncation).
\<close>

definition py_int :: "rat \<Rightarrow> int" where
  "py_int x = (if 0 \<le> x then \<lfloor>x\<rfloor> else \<lceil>x\<rceil>)"

subsection \<open>\<open>Converter.run\<close>\<close>

text \<open>The signals of \<open>Communicate\<close>: \<open>update_prog\<close> with its argument, \<open>wait\<close> and \<open>done\<close>.\<close>

datatype signal = Update_prog int | Wait | Done

text \<open>
  What \<open>run\<close> acts on: the workbook, the signals emitted so far (oldest first) and the
  lines printed.
\<close>

record world =
  wbook :: workbook
  ui :: "signal list"
  printed :: "string list"

text \<open>
  \<open>create_connection\<close> returns the connection; an \<open>sqlite3.Error\<close> is printed and the
  function returns \<open>None\<close>. Other exceptions propagate. The first component is what was
  printed.
\<close>

definition create_connection :: "'conn sqlite3 \<Rightarrow> string \<Rightarrow> string list \<times> (py_exn + 'conn option)" where
  "create_connection db db_file =
     (case connect db db_file of
        Inr conn \<Rightarrow> ([], Inr (Some conn))
      | Inl (SqliteError e) \<Rightarrow> ([e], Inr None)
      | Inl other \<Rightarrow> ([], Inl other))"

definition master_query :: string where
  "master_query = ''SELECT name FROM sqlite_master WHERE type='table';''"

text \<open>
  \<open>[item for item in names if not item.startswith("sqlite")]\<close>. Only \<open>str\<close> and \<open>bytes\<close>
  have \<open>startswith\<close>, and that of \<open>bytes\<close> rejects a \<open>str\<close> argument.
\<close>

fun clean_names :: "sql_value list \<Rightarrow> py_exn + string list" where
  "clean_names [] = Inr []"
| "clean_names (SqlText item # names) =
     (case clean_names names of
        Inl e \<Rightarrow> Inl e
      | Inr rest \<Rightarrow> Inr (if prefix ''sqlite'' item then rest else item # rest))"
| "clean_names (SqlBlob item # names) = Inl TypeError"
| "clean_names (item # names) = Inl AttributeError"

text \<open>
  \<open>stop()\<close> is called by the window's thread and sets \<open>_stopped\<close>, which nothing resets;
  \<open>run\<close> reads it once after each table. \<open>stop_before = Some k\<close> says that \<open>stop()\<close> ran
  before the read that follows table \<open>k\<close> (counted from 0) and after the one before it,
  \<open>None\<close> that it did not run.
\<close>

definition stopped :: "nat option \<Rightarrow> nat \<Rightarrow> bool" where
  "stopped stop_before i = (case stop_before of None \<Rightarrow> False | Some k \<Rightarrow> k \<le> i)"

text \<open>The argument of \<open>update_prog.emit(i / len(cleaned_names) * 100)\<close>, as the slot receives it.\<close>

definition progress :: "nat \<Rightarrow> nat \<Rightarrow> py_exn + int" where
  "progress i n =
     (case py_truediv (int i) (int n) of
        Inl e \<Rightarrow> Inl e
      | Inr q \<Rightarrow> Inr (py_int (py_float_mul q 100)))"

text \<open>The value the slot of \<open>update_prog\<close> receives after table \<open>i\<close> of \<open>n\<close>, for \<open>n > 0\<close>.\<close>

definition percent :: "nat \<Rightarrow> nat \<Rightarrow> int" where
  "percent i n = py_int (py_float_mul (round_binary64 (of_nat i / of_nat n)) 100)"

text \<open>
  The loop \<open>for i, name in enumerate(cleaned_names)\<close>; \<open>n\<close> is \<open>len(cleaned_names)\<close>, \<open>i\<close>
  the index of the first name of the list that is left.
\<close>

fun run_tables ::
  "'conn sqlite3 \<Rightarrow> xlsxwriter \<Rightarrow> nat option \<Rightarrow> 'conn \<Rightarrow> nat \<Rightarrow> nat \<Rightarrow> string list \<Rightarrow> world
     \<Rightarrow> world \<times> py_exn option" where
  "run_tables db lib stop_before conn n i [] s = (s, None)"
| "run_tables db lib stop_before conn n i (name # names) s =
     (case select_table db conn name of
        Inl e \<Rightarrow> (s, Some e)
      | Inr table \<Rightarrow>
          (case write_table_to_workbook lib (wbook s) table name of
             (wb, Some e) \<Rightarrow> (s\<lparr>wbook := wb\<rparr>, Some e)
           | (wb, None) \<Rightarrow>
               (case progress i n of
                  Inl e \<Rightarrow> (s\<lparr>wbook := wb\<rparr>, Some e)
                | Inr x \<Rightarrow>
                    (let s' = s\<lparr>wbook := wb, ui := ui s @ [Update_prog x]\<rparr>
                     in if stopped stop_before i then (s', Some SystemExit)
                        else run_tables db lib stop_before conn n (Suc i) names s'))))"

text \<open>
  \<open>run\<close>: the workbook is created, the connection opened (\<open>conn.cursor()\<close> on \<open>None\<close>
  raises \<open>AttributeError\<close>), the names of the tables are read and filtered, the tables
  are copied, and then \<open>wait\<close> is emitted, the workbook closed and \<open>done\<close> emitted. The
  result is the world reached and the exception that ended the thread, if any.
\<close>

definition run ::
  "'conn sqlite3 \<Rightarrow> xlsxwriter \<Rightarrow> nat option \<Rightarrow> string \<Rightarrow> string \<Rightarrow> world \<times> py_exn option" where
  "run db lib stop_before db_file save_path =
     (let workbook = Workbook save_path in
      case create_connection db db_file of
        (out, Inl e) \<Rightarrow> (\<lparr>wbook = workbook, ui = [], printed = out\<rparr>, Some e)
      | (out, Inr None) \<Rightarrow> (\<lparr>wbook = workbook, ui = [], printed = out\<rparr>, Some AttributeError)
      | (out, Inr (Some conn)) \<Rightarrow>
          (let s = \<lparr>wbook = workbook, ui = [], printed = out\<rparr> in
           case execute db conn master_query of
             Inl e \<Rightarrow> (s, Some e)
           | Inr data \<Rightarrow>
               (let names = concat (fetchall data) in
                case clean_names names of
                  Inl e \<Rightarrow> (s, Some e)
                | Inr cleaned_names \<Rightarrow>
                    (case run_tables db lib stop_before conn (length cleaned_names) 0
                            cleaned_names s of
                       (s', Some e) \<Rightarrow> (s', Some e)
                     | (s', None) \<Rightarrow>
                         (let s'' = s'\<lparr>ui := ui s' @ [Wait]\<rparr> in
                          case close lib (wbook s'') of
                            (wb, Some e) \<Rightarrow> (s''\<lparr>wbook := wb\<rparr>, Some e)
                          | (wb, None) \<Rightarrow> (s''\<lparr>wbook := wb, ui := ui s'' @ [Done]\<rparr>, None))))))"

subsection \<open>Reading a worksheet\<close>

text \<open>The values written into row \<open>k\<close> of a worksheet, in the order they were written.\<close>

definition sheet_row :: "worksheet \<Rightarrow> nat \<Rightarrow> sql_value list" where
  "sheet_row ws k = map (\<lambda>cell. snd (snd cell)) (filter (\<lambda>cell. fst cell = k) (cells ws))"

text \<open>
  Row-major order: the cells of the columns \<open>0, \<dots>, w - 1\<close> of a row, and the rows one
  after the other from row number \<open>r\<close> on.
\<close>

definition row_major_row :: "nat \<Rightarrow> sql_value list \<Rightarrow> nat \<Rightarrow> (nat \<times> nat \<times> sql_value) list" where
  "row_major_row r row w = map (\<lambda>c. (r, c, row ! c)) [0..<w]"

fun row_major :: "nat \<Rightarrow> sql_value list list \<Rightarrow> nat \<Rightarrow> (nat \<times> nat \<times> sql_value) list" where
  "row_major r [] w = []"
| "row_major r (row # rows) w = row_major_row r row w @ row_major (Suc r) rows w"

subsection \<open>Reference libraries\<close>

text \<open>
  Two concrete libraries on which the model can be run. The first is a database held in
  memory: one file, and its tables in the order of the catalogue, each with its column
  names and rows. It answers the two statements \<open>run\<close> issues. A name between single
  quotes is read as SQLite reads it: it ends at the first single quote that is not
  doubled, and a doubled quote stands for one quote. After the name the statement ends,
  or a comment follows.
\<close>

fun read_quoted :: "string \<Rightarrow> string \<Rightarrow> (string \<times> string) option" where
  "read_quoted acc [] = None"
| "read_quoted acc [c] = (if c = quote then Some (rev acc, []) else None)"
| "read_quoted acc (c # d # cs) =
     (if c \<noteq> quote then read_quoted (c # acc) (d # cs)
      else if d = quote then read_quoted (quote # acc) cs
      else Some (rev acc, d # cs))"

text \<open>A comment: two hyphens and what follows them up to the end of the line.\<close>

definition is_comment :: "string \<Rightarrow> bool" where
  "is_comment rest = (prefix ''--'' rest \<and> CHR 0x0A \<notin> set rest)"

definition parse_select :: "string \<Rightarrow> string option" where
  "parse_select sql =
     (if prefix ''SELECT * FROM '' sql
      then (case drop 14 sql of
              [] \<Rightarrow> None
            | c # cs \<Rightarrow>
                (if c = quote
                 then (case read_quoted [] cs of
                         None \<Rightarrow> None
                       | Some (name, rest) \<Rightarrow>
                           (if rest = [] \<or> is_comment rest then Some name else None))
                 else None))
      else None)"

definition memory_db :: "string \<Rightarrow> (string \<times> cursor) list \<Rightarrow> unit sqlite3" where
  "memory_db file tables =
     \<lparr>connect = (\<lambda>path. if path = file then Inr ()
                          else Inl (SqliteError ''unable to open database file'')),
      execute = (\<lambda>conn sql.
        if sql = master_query
        then Inr \<lparr>description = [''name''], fetchall = map (\<lambda>t. [SqlText (fst t)]) tables\<rparr>
        else (case parse_select sql of
                None \<Rightarrow> Inl (SqliteError ''syntax error'')
              | Some name \<Rightarrow>
                  (case map_of tables name of
                     None \<Rightarrow> Inl (SqliteError ''no such table'')
                   | Some cur \<Rightarrow> Inr cur)))\<rparr>"

text \<open>
  The second is a workbook library that enforces the limits of Excel on the name of a
  sheet, as \<open>xlsxwriter\<close> does: at most 31 characters, none of the characters
  \<open>[ ] : * ? /\<close> and backslash, and no name twice. It stores every workbook.
\<close>

definition forbidden_chars :: "char list" where
  "forbidden_chars = [CHR ''['', CHR '']'', CHR '':'', CHR ''*'', CHR ''?'', CHR ''/'', CHR 0x5C]"

definition excel_check :: "string list \<Rightarrow> string \<Rightarrow> py_exn + string" where
  "excel_check existing name =
     (if 31 < length name then Inl (XlsxError ''InvalidWorksheetName'')
      else if list_ex (\<lambda>c. c \<in> set forbidden_chars) name then Inl (XlsxError ''InvalidWorksheetName'')
      else if name \<in> set existing then Inl (XlsxError ''DuplicateWorksheetName'')
      else Inr name)"

definition excel_lib :: xlsxwriter where
  "excel_lib = \<lparr>check_sheetname = excel_check, store_workbook = (\<lambda>wb. None)\<rparr>"

text \<open>A workbook library that accepts every name and stores every workbook.\<close>

definition plain_lib :: xlsxwriter where
  "plain_lib = \<lparr>check_sheetname = (\<lambda>existing name. Inr name), store_workbook = (\<lambda>wb. None)\<rparr>"

text \<open>
  The scenario of the specification: the tables \<open>users\<close> and \<open>logs\<close> in the file \<open>in.db\<close>.
\<close>

definition users_table :: cursor where
  "users_table =
     \<lparr>description = [''id'', ''name''],
      fetchall = [ [SqlInteger 1, SqlText ''Ann''], [SqlInteger 2, SqlText ''Bo''] ]\<rparr>"

definition logs_table :: cursor where
  "logs_table = \<lparr>description = [''id'', ''msg''], fetchall = [ [SqlInteger 1, SqlText ''ok''] ]\<rparr>"

definition demo_db :: "unit sqlite3" where
  "demo_db = memory_db ''in.db'' [(''users'', users_table), (''logs'', logs_table)]"




text \<open>
  A database with the table \<open>a\<close> and a table whose name holds a single quote, \<open>a'--\<close>.
\<close>

definition quoted_tables :: "(string \<times> cursor) list" where
  "quoted_tables =
     [(''a'', \<lparr>description = [''x'', ''y''], fetchall = [ [SqlInteger 1, SqlInteger 2] ]\<rparr>),
      (''a'--'', \<lparr>description = [''p''], fetchall = [ [SqlInteger 9] ]\<rparr>)]"

definition quoted_db :: "unit sqlite3" where
  "quoted_db = memory_db ''in.db'' quoted_tables"

text \<open>
  A database with the user tables \<open>sqlitedata\<close> and \<open>users\<close>. SQLite reserves the names
  that begin with \<open>sqlite_\<close>; \<open>sqlitedata\<close> is not one of them.
\<close>

definition sqlitedata_db :: "unit sqlite3" where
  "sqlitedata_db =
     memory_db ''in.db''
       [(''sqlitedata'', \<lparr>description = [''q''], fetchall = []\<rparr>), (''users'', users_table)]"

text \<open>
  A database of \<open>n\<close> empty tables with one column, named \<open>aa\<close>, \<open>ab\<close>, \<open>ac\<close> and so on.
\<close>

definition table_name :: "nat \<Rightarrow> string" where
  "table_name k = [char_of (97 + k div 26), char_of (97 + k mod 26)]"

definition numbered_db :: "nat \<Rightarrow> unit sqlite3" where
  "numbered_db n =
     memory_db ''in.db'' (map (\<lambda>k. (table_name k, \<lparr>description = [''id''], fetchall = []\<rparr>)) [0..<n])"

text \<open>
  The progress value as the specification words it, \<open>i / N * 100\<close> cut to an integer, in
  exact arithmetic.
\<close>

definition spec_progress :: "nat \<Rightarrow> nat \<Rightarrow> int" where
  "spec_progress i n = \<lfloor>(of_nat i / of_nat n * 100 :: rat)\<rfloor>"

section \<open>Properties\<close>

subsection \<open>Writing a table\<close>

lemma write_row_complete:
  "\<forall>c \<in> set cols. c < length row \<Longrightarrow>
   write_row ws r row cols = (ws\<lparr>cells := cells ws @ map (\<lambda>c. (r, c, row ! c)) cols\<rparr>, None)"
  by (induction cols arbitrary: ws) simp_all

lemma write_row_short:
  "\<exists>c \<in> set cols. length row \<le> c \<Longrightarrow> snd (write_row ws r row cols) = Some IndexError"
  by (induction cols arbitrary: ws) auto

lemma write_rows_complete:
  "\<forall>row \<in> set rows. w \<le> length row \<Longrightarrow>
   write_rows ws r rows [0..<w] = (ws\<lparr>cells := cells ws @ row_major r rows w\<rparr>, None)"
proof (induction rows arbitrary: ws r)
  case Nil
  show ?case by simp
next
  case (Cons row rows)
  from Cons.prems have "\<forall>c \<in> set [0..<w]. c < length row" by auto
  then have "write_row ws r row [0..<w] =
      (ws\<lparr>cells := cells ws @ row_major_row r row w\<rparr>, None)"
    unfolding row_major_row_def by (rule write_row_complete)
  moreover from Cons.prems have "\<forall>row \<in> set rows. w \<le> length row" by simp
  ultimately show ?case by (simp add: Cons.IH)
qed

lemma write_rows_short:
  "\<exists>row \<in> set rows. length row < w \<Longrightarrow> snd (write_rows ws r rows [0..<w]) = Some IndexError"
proof (induction rows arbitrary: ws r)
  case Nil
  then show ?case by simp
next
  case (Cons row rows)
  show ?case
  proof (cases "length row < w")
    case True
    then have "\<exists>c \<in> set [0..<w]. length row \<le> c" by auto
    then have "snd (write_row ws r row [0..<w]) = Some IndexError" by (rule write_row_short)
    then show ?thesis by (cases "write_row ws r row [0..<w]") simp
  next
    case False
    then have "\<forall>c \<in> set [0..<w]. c < length row" by auto
    then have row: "write_row ws r row [0..<w] =
        (ws\<lparr>cells := cells ws @ map (\<lambda>c. (r, c, row ! c)) [0..<w]\<rparr>, None)"
      by (rule write_row_complete)
    from False Cons.prems have "\<exists>row \<in> set rows. length row < w" by simp
    then have "\<And>ws' r'. snd (write_rows ws' r' rows [0..<w]) = Some IndexError" by (rule Cons.IH)
    with row show ?thesis by simp
  qed
qed

lemma write_row_sheet_name: "write_row ws r row cols = (ws', e) \<Longrightarrow> sheet_name ws' = sheet_name ws"
  by (induction cols arbitrary: ws) (auto split: if_splits)

lemma write_rows_sheet_name:
  "write_rows ws r rows cols = (ws', e) \<Longrightarrow> sheet_name ws' = sheet_name ws"
proof (induction rows arbitrary: ws r)
  case Nil
  then show ?case by simp
next
  case (Cons row rows)
  obtain ws1 e1 where row: "write_row ws r row cols = (ws1, e1)"
    by (cases "write_row ws r row cols")
  then have name: "sheet_name ws1 = sheet_name ws" by (rule write_row_sheet_name)
  show ?case
  proof (cases e1)
    case None
    with Cons.prems row have "write_rows ws1 (Suc r) rows cols = (ws', e)" by simp
    then have "sheet_name ws' = sheet_name ws1" by (rule Cons.IH)
    with name show ?thesis by simp
  next
    case (Some x)
    with Cons.prems row name show ?thesis by simp
  qed
qed

lemma filter_row_major_row:
  "filter (\<lambda>cell. fst cell = k) (row_major_row r row w) = (if r = k then row_major_row r row w else [])"
  by (simp add: row_major_row_def filter_map comp_def)

lemma filter_row_major:
  "filter (\<lambda>cell. fst cell = k) (row_major r rows w) =
     (if r \<le> k \<and> k < r + length rows then row_major_row k (rows ! (k - r)) w else [])"
proof (induction rows arbitrary: r)
  case Nil
  show ?case by auto
next
  case (Cons row rows)
  show ?case
    by (auto simp: filter_row_major_row Cons.IH nth_Cons' Suc_diff_le not_le less_Suc_eq_le)
qed

lemma values_row_major_row:
  "w \<le> length row \<Longrightarrow> map (\<lambda>cell. snd (snd cell)) (row_major_row k row w) = take w row"
  by (rule nth_equalityI) (simp_all add: row_major_row_def)

lemma sheet_row_row_major:
  assumes "cells ws = row_major 0 rows w" and "k < length rows" and "w \<le> length (rows ! k)"
  shows "sheet_row ws k = take w (rows ! k)"
  using assms by (simp add: sheet_row_def filter_row_major values_row_major_row)

lemma sheet_row_beyond:
  assumes "cells ws = row_major 0 rows w" and "length rows \<le> k"
  shows "sheet_row ws k = []"
  using assms by (simp add: sheet_row_def filter_row_major)

lemma write_table_complete:
  assumes "check_sheetname lib (map sheet_name (worksheets wb)) name = Inr n"
    and "\<forall>row \<in> set rows. length header \<le> length row"
  shows "write_table_to_workbook lib wb (header # rows) name =
      (wb\<lparr>worksheets := worksheets wb @
          [\<lparr>sheet_name = n, cells = row_major 0 (header # rows) (length header)\<rparr>]\<rparr>, None)"
proof -
  let ?w = "length header"
  let ?empty = "\<lparr>sheet_name = n, cells = []\<rparr>"
  from assms(2) have "\<forall>row \<in> set (header # rows). ?w \<le> length row" by simp
  then have "write_rows ?empty 0 (header # rows) [0..<?w] =
      (?empty\<lparr>cells := cells ?empty @ row_major 0 (header # rows) ?w\<rparr>, None)"
    by (rule write_rows_complete)
  then show ?thesis
    unfolding write_table_to_workbook_def using assms(1) by simp
qed

lemma write_table_short:
  assumes "check_sheetname lib (map sheet_name (worksheets wb)) name = Inr n"
    and "\<exists>row \<in> set rows. length row < length header"
  shows "snd (write_table_to_workbook lib wb (header # rows) name) = Some IndexError"
proof -
  let ?w = "length header"
  let ?empty = "\<lparr>sheet_name = n, cells = []\<rparr>"
  from assms(2) have "\<exists>row \<in> set (header # rows). length row < ?w" by simp
  then have "snd (write_rows ?empty 0 (header # rows) [0..<?w]) = Some IndexError"
    by (rule write_rows_short)
  then show ?thesis
    unfolding write_table_to_workbook_def using assms(1)
    by (cases "write_rows ?empty 0 (header # rows) [0..<?w]") simp
qed

lemma write_row_stops:
  assumes "\<forall>c \<in> set pre. c < length row" and "length row \<le> c"
  shows "write_row ws r row (pre @ c # post) =
           (ws\<lparr>cells := cells ws @ map (\<lambda>c. (r, c, row ! c)) pre\<rparr>, Some IndexError)"
  using assms by (induction pre arbitrary: ws) simp_all

lemma write_row_partial:
  assumes "length row < w"
  shows "write_row ws r row [0..<w] =
           (ws\<lparr>cells := cells ws @ row_major_row r row (length row)\<rparr>, Some IndexError)"
proof -
  from assms have "[0..<w] = [0..<length row] @ [length row..<w]"
    using upt_add_eq_append [of 0 "length row" "w - length row"] by simp
  with assms have "[0..<w] = [0..<length row] @ length row # [Suc (length row)..<w]"
    by (simp add: upt_conv_Cons)
  moreover have "\<forall>c \<in> set [0..<length row]. c < length row" by simp
  ultimately show ?thesis
    unfolding row_major_row_def using write_row_stops [of "[0..<length row]" row "length row"]
    by simp
qed

lemma write_rows_partial:
  assumes "\<forall>row \<in> set pre. w \<le> length row" and "length short < w"
  shows "write_rows ws r (pre @ short # post) [0..<w] =
           (ws\<lparr>cells := cells ws @ row_major r pre w @
               row_major_row (r + length pre) short (length short)\<rparr>, Some IndexError)"
  using assms
proof (induction pre arbitrary: ws r)
  case Nil
  then show ?case by (simp add: write_row_partial)
next
  case (Cons row pre)
  from Cons.prems have "\<forall>c \<in> set [0..<w]. c < length row" by auto
  then have "write_row ws r row [0..<w] =
      (ws\<lparr>cells := cells ws @ row_major_row r row w\<rparr>, None)"
    unfolding row_major_row_def by (rule write_row_complete)
  moreover from Cons.prems have "\<forall>row \<in> set pre. w \<le> length row" by simp
  ultimately show ?case using Cons.prems(2) by (simp add: Cons.IH)
qed

lemma write_table_partial:
  assumes "check_sheetname lib (map sheet_name (worksheets wb)) name = Inr n"
    and "\<forall>row \<in> set pre. length header \<le> length row"
    and "length short < length header"
  shows "write_table_to_workbook lib wb (header # pre @ short # post) name =
      (wb\<lparr>worksheets := worksheets wb @
          [\<lparr>sheet_name = n,
            cells = row_major 0 (header # pre) (length header) @
                    row_major_row (Suc (length pre)) short (length short)\<rparr>]\<rparr>, Some IndexError)"
proof -
  let ?w = "length header"
  let ?empty = "\<lparr>sheet_name = n, cells = []\<rparr>"
  from assms(2) have "\<forall>row \<in> set (header # pre). ?w \<le> length row" by simp
  from write_rows_partial [OF this assms(3), of ?empty 0 post]
  have "write_rows ?empty 0 (header # pre @ short # post) [0..<?w] =
      (?empty\<lparr>cells := cells ?empty @ row_major 0 (header # pre) ?w @
          row_major_row (Suc (length pre)) short (length short)\<rparr>, Some IndexError)"
    by simp
  then show ?thesis
    unfolding write_table_to_workbook_def using assms(1) by simp
qed

text \<open>
  Claim C10, as the code has it. The number of columns written for every row is the
  length of the header. When every data row has at least that many cells, the write
  succeeds, the cells are written row by row, and each row of the sheet is the table's
  row cut to the width of the header. When a data row is shorter than the header, the
  write raises \<open>IndexError\<close>; at that point the header, the rows before the first short
  row and the cells that the short row has are written: the worksheet holds a partial
  row.
\<close>

theorem write_table_header_width:
  assumes "check_sheetname lib (map sheet_name (worksheets wb)) name = Inr n"
  shows "((\<forall>row \<in> set rows. length header \<le> length row) \<longrightarrow>
            (\<exists>ws. write_table_to_workbook lib wb (header # rows) name =
                    (wb\<lparr>worksheets := worksheets wb @ [ws]\<rparr>, None) \<and>
                  cells ws = row_major 0 (header # rows) (length header) \<and>
                  (\<forall>k < length (header # rows).
                     sheet_row ws k = take (length header) ((header # rows) ! k)))) \<and>
         ((\<exists>row \<in> set rows. length row < length header) \<longrightarrow>
            snd (write_table_to_workbook lib wb (header # rows) name) = Some IndexError) \<and>
         (rows = pre @ short # post \<and> (\<forall>row \<in> set pre. length header \<le> length row) \<and>
            length short < length header \<longrightarrow>
            write_table_to_workbook lib wb (header # rows) name =
              (wb\<lparr>worksheets := worksheets wb @
                  [\<lparr>sheet_name = n,
                    cells = row_major 0 (header # pre) (length header) @
                            row_major_row (Suc (length pre)) short (length short)\<rparr>]\<rparr>,
               Some IndexError))"
proof (intro conjI impI)
  let ?w = "length header"
  assume wide: "\<forall>row \<in> set rows. ?w \<le> length row"
  define ws where "ws = \<lparr>sheet_name = n, cells = row_major 0 (header # rows) ?w\<rparr>"
  have result: "write_table_to_workbook lib wb (header # rows) name =
      (wb\<lparr>worksheets := worksheets wb @ [ws]\<rparr>, None)"
    unfolding ws_def using assms wide by (rule write_table_complete)
  have cells: "cells ws = row_major 0 (header # rows) ?w" by (simp add: ws_def)
  have "sheet_row ws k = take ?w ((header # rows) ! k)" if "k < length (header # rows)" for k
  proof (rule sheet_row_row_major [OF cells that])
    from that have "(header # rows) ! k \<in> set (header # rows)" by (rule nth_mem)
    with wide show "?w \<le> length ((header # rows) ! k)" by auto
  qed
  with result cells
  show "\<exists>ws. write_table_to_workbook lib wb (header # rows) name =
            (wb\<lparr>worksheets := worksheets wb @ [ws]\<rparr>, None) \<and>
          cells ws = row_major 0 (header # rows) ?w \<and>
          (\<forall>k < length (header # rows). sheet_row ws k = take ?w ((header # rows) ! k))"
    by blast
next
  assume "\<exists>row \<in> set rows. length row < length header"
  with assms show "snd (write_table_to_workbook lib wb (header # rows) name) = Some IndexError"
    by (rule write_table_short)
next
  assume "rows = pre @ short # post \<and> (\<forall>row \<in> set pre. length header \<le> length row) \<and>
      length short < length header"
  then have rows: "rows = pre @ short # post"
    and pre: "\<forall>row \<in> set pre. length header \<le> length row"
    and short: "length short < length header"
    by simp_all
  show "write_table_to_workbook lib wb (header # rows) name =
      (wb\<lparr>worksheets := worksheets wb @
          [\<lparr>sheet_name = n,
            cells = row_major 0 (header # pre) (length header) @
                    row_major_row (Suc (length pre)) short (length short)\<rparr>]\<rparr>, Some IndexError)"
    unfolding rows using assms pre short by (rule write_table_partial)
qed

theorem write_table_header_width_witness:
  "(\<exists>ws. write_table_to_workbook excel_lib (Workbook ''out.xlsx'')
            [ [SqlText ''id'', SqlText ''name''], [SqlInteger 1, SqlText ''Ann'', SqlNull] ] ''users'' =
            (Workbook ''out.xlsx''\<lparr>worksheets := [ws]\<rparr>, None) \<and>
          sheet_row ws 1 = [SqlInteger 1, SqlText ''Ann'']) \<and>
   snd (write_table_to_workbook excel_lib (Workbook ''out.xlsx'')
       [ [SqlText ''id'', SqlText ''name''], [SqlInteger 1, SqlText ''Ann''], [SqlInteger 2] ] ''users'')
     = Some IndexError \<and>
   write_table_to_workbook excel_lib (Workbook ''out.xlsx'')
       [ [SqlText ''id'', SqlText ''name''], [SqlInteger 1, SqlText ''Ann''], [SqlInteger 2] ] ''users'' =
     (Workbook ''out.xlsx''\<lparr>worksheets :=
        [\<lparr>sheet_name = ''users'',
          cells = [(0, 0, SqlText ''id''), (0, 1, SqlText ''name''),
                   (1, 0, SqlInteger 1), (1, 1, SqlText ''Ann''),
                   (2, 0, SqlInteger 2)]\<rparr>]\<rparr>, Some IndexError)"
proof -
  let ?header = "[SqlText ''id'', SqlText ''name'']"
  let ?long = "[ [SqlInteger 1, SqlText ''Ann'', SqlNull] ]"
  let ?pre = "[ [SqlInteger 1, SqlText ''Ann''] ]"
  let ?short = "[SqlInteger 2]"
  let ?rows = "[ [SqlInteger 1, SqlText ''Ann''], [SqlInteger 2] ]"
  have accepted: "check_sheetname excel_lib (map sheet_name (worksheets (Workbook ''out.xlsx''))) ''users''
      = Inr ''users''"
    by (simp add: excel_lib_def excel_check_def forbidden_chars_def Workbook_def)
  have wide: "\<forall>row \<in> set ?long. length ?header \<le> length row" by simp
  from write_table_header_width [OF accepted, of ?long ?header] wide
  obtain ws where
    ws: "write_table_to_workbook excel_lib (Workbook ''out.xlsx'') (?header # ?long) ''users'' =
          (Workbook ''out.xlsx''\<lparr>worksheets := worksheets (Workbook ''out.xlsx'') @ [ws]\<rparr>, None)"
      "\<forall>k < length (?header # ?long). sheet_row ws k = take (length ?header) ((?header # ?long) ! k)"
    by blast
  from ws(2) have "sheet_row ws 1 = [SqlInteger 1, SqlText ''Ann'']" by simp
  with ws(1) have first: "\<exists>ws. write_table_to_workbook excel_lib (Workbook ''out.xlsx'')
      (?header # ?long) ''users'' = (Workbook ''out.xlsx''\<lparr>worksheets := [ws]\<rparr>, None) \<and>
      sheet_row ws 1 = [SqlInteger 1, SqlText ''Ann'']"
    by (auto simp: Workbook_def)
  have some_short: "\<exists>row \<in> set ?rows. length row < length ?header" by simp
  have split: "?rows = ?pre @ ?short # [] \<and>
      (\<forall>row \<in> set ?pre. length ?header \<le> length row) \<and> length ?short < length ?header"
    by simp
  note inst = write_table_header_width [OF accepted, of ?rows ?header ?pre ?short "[]"]
  from inst some_short
  have second: "snd (write_table_to_workbook excel_lib (Workbook ''out.xlsx'') (?header # ?rows) ''users'')
      = Some IndexError"
    by blast
  from inst split
  have "write_table_to_workbook excel_lib (Workbook ''out.xlsx'') (?header # ?rows) ''users'' =
      (Workbook ''out.xlsx''\<lparr>worksheets := worksheets (Workbook ''out.xlsx'') @
          [\<lparr>sheet_name = ''users'',
            cells = row_major 0 (?header # ?pre) (length ?header) @
                    row_major_row (Suc (length ?pre)) ?short (length ?short)\<rparr>]\<rparr>, Some IndexError)"
    by blast
  moreover have "row_major 0 (?header # ?pre) (length ?header) @
      row_major_row (Suc (length ?pre)) ?short (length ?short) =
      [(0, 0, SqlText ''id''), (0, 1, SqlText ''name''),
       (1, 0, SqlInteger 1), (1, 1, SqlText ''Ann''), (2, 0, SqlInteger 2)]"
    by code_simp
  moreover have "worksheets (Workbook ''out.xlsx'') = []" by (simp add: Workbook_def)
  ultimately have third: "write_table_to_workbook excel_lib (Workbook ''out.xlsx'') (?header # ?rows) ''users'' =
     (Workbook ''out.xlsx''\<lparr>worksheets :=
        [\<lparr>sheet_name = ''users'',
          cells = [(0, 0, SqlText ''id''), (0, 1, SqlText ''name''),
                   (1, 0, SqlInteger 1), (1, 1, SqlText ''Ann''),
                   (2, 0, SqlInteger 2)]\<rparr>]\<rparr>, Some IndexError)"
    by (simp only: append_Nil)
  from first second third show ?thesis by blast
qed

text \<open>
  Claim C10 as it is stated: for a short row the write fails rather than writing a
  partial row. For a header of two columns and the data row \<open>(1)\<close>, the cell in column 0
  of the short row is written before the exception: the worksheet that the exception
  leaves behind holds it.
\<close>

theorem short_row_is_partly_written:
  "write_table_to_workbook excel_lib (Workbook ''out.xlsx'')
       [ [SqlText ''id'', SqlText ''name''], [SqlInteger 1] ] ''users'' =
     (\<lparr>filename = ''out.xlsx'',
       worksheets =
         [\<lparr>sheet_name = ''users'',
           cells = [(0, 0, SqlText ''id''), (0, 1, SqlText ''name''), (1, 0, SqlInteger 1)]\<rparr>],
       fileclosed = False\<rparr>, Some IndexError)"
  by code_simp

text \<open>
  Whatever rows the statement of \<open>select_table\<close> returns, with one cell per column: the
  cells are written in row-major order, row 0 of the sheet is the list of column names,
  row \<open>k\<close> for \<open>k \<ge> 1\<close> is row \<open>k - 1\<close> of the result, and nothing is written below.
\<close>

lemma sheet_holds_result_of_statement:
  assumes "execute db conn (select_query name) = Inr cur"
    and "\<forall>row \<in> set (fetchall cur). length row = length (description cur)"
    and "check_sheetname lib (map sheet_name (worksheets wb)) name = Inr n"
  shows "\<exists>table ws.
           select_table db conn name = Inr table \<and>
           write_table_to_workbook lib wb table name =
             (wb\<lparr>worksheets := worksheets wb @ [ws]\<rparr>, None) \<and>
           cells ws = row_major 0 table (length (description cur)) \<and>
           sheet_row ws 0 = map SqlText (description cur) \<and>
           (\<forall>k. 1 \<le> k \<and> k \<le> length (fetchall cur) \<longrightarrow> sheet_row ws k = fetchall cur ! (k - 1)) \<and>
           (\<forall>k. length (fetchall cur) < k \<longrightarrow> sheet_row ws k = [])"
proof -
  let ?header = "map SqlText (description cur)"
  let ?rows = "fetchall cur"
  let ?w = "length (description cur)"
  define ws where "ws = \<lparr>sheet_name = n, cells = row_major 0 (?header # ?rows) (length ?header)\<rparr>"
  have cells: "cells ws = row_major 0 (?header # ?rows) ?w" by (simp add: ws_def)
  have selected: "select_table db conn name = Inr (?header # ?rows)"
    using assms(1) by (simp add: select_table_def)
  from assms(2) have wide: "\<forall>row \<in> set ?rows. length ?header \<le> length row" by simp
  have written: "write_table_to_workbook lib wb (?header # ?rows) name =
      (wb\<lparr>worksheets := worksheets wb @ [ws]\<rparr>, None)"
    unfolding ws_def using assms(3) wide by (rule write_table_complete)
  have row0: "sheet_row ws 0 = ?header"
    using sheet_row_row_major [OF cells, of 0] by simp
  have data: "sheet_row ws k = ?rows ! (k - 1)" if "1 \<le> k \<and> k \<le> length ?rows" for k
  proof -
    from that have "k - 1 < length ?rows" by arith
    then have mem: "?rows ! (k - 1) \<in> set ?rows" by (rule nth_mem)
    with assms(2) have len: "length (?rows ! (k - 1)) = ?w" by blast
    from that have "(?header # ?rows) ! k = ?rows ! (k - 1)" by (simp add: nth_Cons')
    with sheet_row_row_major [OF cells, of k] that len show ?thesis by simp
  qed
  have below: "sheet_row ws k = []" if "length ?rows < k" for k
    using sheet_row_beyond [OF cells, of k] that by simp
  from selected written cells row0 data below show ?thesis by blast
qed

subsection \<open>The loop over the tables\<close>

lemma progress_percent: "n \<noteq> 0 \<Longrightarrow> progress i n = Inr (percent i n)"
  by (simp add: progress_def py_truediv_def percent_def)

lemma write_table_result:
  assumes "write_table_to_workbook lib wb table name = (wb', r)"
  shows "(wb' = wb \<and> r \<noteq> None) \<or>
         (\<exists>ws. wb' = wb\<lparr>worksheets := worksheets wb @ [ws]\<rparr> \<and>
               check_sheetname lib (map sheet_name (worksheets wb)) name = Inr (sheet_name ws))"
proof (cases "check_sheetname lib (map sheet_name (worksheets wb)) name")
  case (Inl e)
  with assms show ?thesis by (auto simp: write_table_to_workbook_def)
next
  case (Inr n)
  show ?thesis
  proof (cases table)
    case Nil
    with assms Inr have "wb' = wb\<lparr>worksheets := worksheets wb @ [\<lparr>sheet_name = n, cells = []\<rparr>]\<rparr>"
      by (simp add: write_table_to_workbook_def)
    moreover have "sheet_name \<lparr>sheet_name = n, cells = []\<rparr> = n" by simp
    ultimately show ?thesis using Inr by metis
  next
    case (Cons header rows)
    obtain ws e where
      w: "write_rows \<lparr>sheet_name = n, cells = []\<rparr> 0 (header # rows) [0..<length header] = (ws, e)"
      by (cases "write_rows \<lparr>sheet_name = n, cells = []\<rparr> 0 (header # rows) [0..<length header]")
    then have "sheet_name ws = sheet_name \<lparr>sheet_name = n, cells = []\<rparr>"
      by (rule write_rows_sheet_name)
    then have "sheet_name ws = n" by simp
    moreover from assms Inr Cons w have "wb' = wb\<lparr>worksheets := worksheets wb @ [ws]\<rparr>"
      by (simp add: write_table_to_workbook_def)
    ultimately show ?thesis using Inr by metis
  qed
qed

text \<open>One turn of the loop: it ends the run with an exception, or it goes on.\<close>

lemma run_tables_step:
  assumes "run_tables db lib stop_before conn n i (name # names) s = (s', r)" and "n \<noteq> 0"
  shows "(r \<noteq> None \<and> ui s' = ui s \<and> printed s' = printed s \<and>
            (wbook s' = wbook s \<or> (\<exists>ws. wbook s' = wbook s\<lparr>worksheets := worksheets (wbook s) @ [ws]\<rparr>))) \<or>
         (\<exists>ws s1. s1 = s\<lparr>wbook := wbook s\<lparr>worksheets := worksheets (wbook s) @ [ws]\<rparr>,
                           ui := ui s @ [Update_prog (percent i n)]\<rparr> \<and>
                  check_sheetname lib (map sheet_name (worksheets (wbook s))) name = Inr (sheet_name ws) \<and>
                  (if stopped stop_before i then s' = s1 \<and> r = Some SystemExit
                   else run_tables db lib stop_before conn n (Suc i) names s1 = (s', r)))"
proof (cases "select_table db conn name")
  case (Inl e)
  with assms show ?thesis by auto
next
  case (Inr table)
  obtain wb e where w: "write_table_to_workbook lib (wbook s) table name = (wb, e)"
    by (cases "write_table_to_workbook lib (wbook s) table name")
  from write_table_result [OF w]
  consider "wb = wbook s" "e \<noteq> None"
    | ws where "wb = wbook s\<lparr>worksheets := worksheets (wbook s) @ [ws]\<rparr>"
        "check_sheetname lib (map sheet_name (worksheets (wbook s))) name = Inr (sheet_name ws)"
    by blast
  then show ?thesis
  proof cases
    case 1
    with assms Inr w show ?thesis by auto
  next
    case 2
    show ?thesis
    proof (cases e)
      case (Some x)
      with assms Inr w 2 show ?thesis by auto
    next
      case None
      with assms Inr w 2 progress_percent [OF assms(2), of i] show ?thesis
        by (auto simp: Let_def split: if_splits)
    qed
  qed
qed

text \<open>The signals of the loop: one \<open>update_prog\<close> for each table that was finished, in order.\<close>

lemma run_tables_ui:
  assumes "run_tables db lib stop_before conn n i names s = (s', r)" and "i + length names \<le> n"
  shows "\<exists>m \<le> length names.
           ui s' = ui s @ map (\<lambda>j. Update_prog (percent j n)) [i..<i + m] \<and>
           (r = None \<longrightarrow> m = length names)"
  using assms
proof (induction names arbitrary: i s)
  case Nil
  then show ?case by simp
next
  case (Cons name names)
  from Cons.prems(2) have n: "n \<noteq> 0" by auto
  from run_tables_step [OF Cons.prems(1) n]
  consider (raised) "r \<noteq> None" "ui s' = ui s"
    | (turn) ws s1 where
        "s1 = s\<lparr>wbook := wbook s\<lparr>worksheets := worksheets (wbook s) @ [ws]\<rparr>,
                 ui := ui s @ [Update_prog (percent i n)]\<rparr>"
        "if stopped stop_before i then s' = s1 \<and> r = Some SystemExit
         else run_tables db lib stop_before conn n (Suc i) names s1 = (s', r)"
    by blast
  then show ?case
  proof cases
    case raised
    then have "ui s' = ui s @ map (\<lambda>j. Update_prog (percent j n)) [i..<i + 0] \<and>
        (r = None \<longrightarrow> 0 = length (name # names))"
      by simp
    then show ?thesis by blast
  next
    case turn
    show ?thesis
    proof (cases "stopped stop_before i")
      case True
      with turn have "ui s' = ui s @ map (\<lambda>j. Update_prog (percent j n)) [i..<i + 1] \<and>
          (r = None \<longrightarrow> 1 = length (name # names))"
        by simp
      moreover have "(1::nat) \<le> length (name # names)" by simp
      ultimately show ?thesis by blast
    next
      case False
      with turn have rest: "run_tables db lib stop_before conn n (Suc i) names s1 = (s', r)"
        by simp
      from Cons.prems(2) have "Suc i + length names \<le> n" by simp
      from Cons.IH [OF rest this] obtain m where
        m: "m \<le> length names"
          "ui s' = ui s1 @ map (\<lambda>j. Update_prog (percent j n)) [Suc i..<Suc i + m]"
          "r = None \<longrightarrow> m = length names"
        by blast
      have "[i..<i + Suc m] = i # [Suc i..<Suc i + m]" by (simp add: upt_conv_Cons)
      with m turn(1) have "ui s' = ui s @ map (\<lambda>j. Update_prog (percent j n)) [i..<i + Suc m]"
        by simp
      moreover from m have "Suc m \<le> length (name # names)"
        and "r = None \<longrightarrow> Suc m = length (name # names)"
        by simp_all
      ultimately show ?thesis by blast
    qed
  qed
qed

text \<open>
  The workbook of the loop: sheets are only added, at most one for each table; the loop
  does not close the workbook and prints nothing. When the loop ends without an
  exception, every table has its sheet, created by \<open>add_worksheet\<close> for the name of the
  table.
\<close>

lemma run_tables_workbook:
  assumes "run_tables db lib stop_before conn n i names s = (s', r)" and "i + length names \<le> n"
  shows "\<exists>new. worksheets (wbook s') = worksheets (wbook s) @ new \<and>
           length new \<le> length names \<and>
           fileclosed (wbook s') = fileclosed (wbook s) \<and>
           filename (wbook s') = filename (wbook s) \<and>
           printed s' = printed s \<and>
           (r = None \<longrightarrow>
              length new = length names \<and>
              (\<forall>k < length names.
                 check_sheetname lib (map sheet_name (worksheets (wbook s) @ take k new)) (names ! k)
                   = Inr (sheet_name (new ! k))))"
  using assms
proof (induction names arbitrary: i s)
  case Nil
  then show ?case by simp
next
  case (Cons name names)
  from Cons.prems(2) have n: "n \<noteq> 0" by auto
  from run_tables_step [OF Cons.prems(1) n]
  consider (raised) "r \<noteq> None" "printed s' = printed s" "wbook s' = wbook s"
    | (raised_in_sheet) ws where "r \<noteq> None" "printed s' = printed s"
        "wbook s' = wbook s\<lparr>worksheets := worksheets (wbook s) @ [ws]\<rparr>"
    | (turn) ws s1 where
        "s1 = s\<lparr>wbook := wbook s\<lparr>worksheets := worksheets (wbook s) @ [ws]\<rparr>,
                 ui := ui s @ [Update_prog (percent i n)]\<rparr>"
        "check_sheetname lib (map sheet_name (worksheets (wbook s))) name = Inr (sheet_name ws)"
        "if stopped stop_before i then s' = s1 \<and> r = Some SystemExit
         else run_tables db lib stop_before conn n (Suc i) names s1 = (s', r)"
    by blast
  then show ?case
  proof cases
    case raised
    then have "worksheets (wbook s') = worksheets (wbook s) @ [] \<and>
        length ([] :: worksheet list) \<le> length (name # names) \<and>
        fileclosed (wbook s') = fileclosed (wbook s) \<and>
        filename (wbook s') = filename (wbook s) \<and> printed s' = printed s \<and> r \<noteq> None"
      by simp
    then show ?thesis by blast
  next
    case raised_in_sheet
    then have "worksheets (wbook s') = worksheets (wbook s) @ [ws] \<and>
        length [ws] \<le> length (name # names) \<and>
        fileclosed (wbook s') = fileclosed (wbook s) \<and>
        filename (wbook s') = filename (wbook s) \<and> printed s' = printed s \<and> r \<noteq> None"
      by simp
    then show ?thesis by blast
  next
    case turn
    show ?thesis
    proof (cases "stopped stop_before i")
      case True
      with turn have "worksheets (wbook s') = worksheets (wbook s) @ [ws] \<and>
          length [ws] \<le> length (name # names) \<and>
          fileclosed (wbook s') = fileclosed (wbook s) \<and>
          filename (wbook s') = filename (wbook s) \<and> printed s' = printed s \<and> r \<noteq> None"
        by simp
      then show ?thesis by blast
    next
      case False
      with turn have rest: "run_tables db lib stop_before conn n (Suc i) names s1 = (s', r)"
        by simp
      from Cons.prems(2) have "Suc i + length names \<le> n" by simp
      from Cons.IH [OF rest this] obtain new where
        new: "worksheets (wbook s') = worksheets (wbook s1) @ new"
          "length new \<le> length names"
          "fileclosed (wbook s') = fileclosed (wbook s1)"
          "filename (wbook s') = filename (wbook s1)"
          "printed s' = printed s1"
          "r = None \<longrightarrow> length new = length names \<and>
             (\<forall>k < length names.
                check_sheetname lib (map sheet_name (worksheets (wbook s1) @ take k new)) (names ! k)
                  = Inr (sheet_name (new ! k)))"
        by blast
      have sheets: "worksheets (wbook s') = worksheets (wbook s) @ (ws # new)"
        using new(1) turn(1) by simp
      have len: "length (ws # new) \<le> length (name # names)" using new(2) by simp
      have same: "fileclosed (wbook s') = fileclosed (wbook s)"
          "filename (wbook s') = filename (wbook s)" "printed s' = printed s"
        using new(3,4,5) turn(1) by simp_all
      have "check_sheetname lib (map sheet_name (worksheets (wbook s) @ take k (ws # new)))
                ((name # names) ! k) = Inr (sheet_name ((ws # new) ! k))"
        if none: "r = None" and k: "k < length (name # names)" for k
      proof (cases k)
        case 0
        with turn(2) show ?thesis by simp
      next
        case (Suc k')
        with k have "k' < length names" by simp
        with new(6) none have "check_sheetname lib
            (map sheet_name (worksheets (wbook s1) @ take k' new)) (names ! k') = Inr (sheet_name (new ! k'))"
          by blast
        with Suc turn(1) show ?thesis by simp
      qed
      moreover from new(6) have "r = None \<longrightarrow> length (ws # new) = length (name # names)"
        by simp
      ultimately show ?thesis using sheets len same by blast
    qed
  qed
qed

text \<open>
  A stop at the read after table \<open>k\<close> ends the loop there at the latest, with an
  exception; a stop after the last read changes nothing.
\<close>

lemma run_tables_stopped:
  assumes "run_tables db lib (Some k) conn n i names s = (s', r)"
    and "i + length names \<le> n" and "i \<le> k" and "k < i + length names"
  shows "r \<noteq> None \<and>
         length (worksheets (wbook s')) \<le> length (worksheets (wbook s)) + (Suc k - i) \<and>
         length (ui s') \<le> length (ui s) + (Suc k - i)"
  using assms
proof (induction names arbitrary: i s)
  case Nil
  then show ?case by simp
next
  case (Cons name names)
  from Cons.prems(2) have n: "n \<noteq> 0" by auto
  from run_tables_step [OF Cons.prems(1) n]
  consider (raised) "r \<noteq> None" "ui s' = ui s"
        "length (worksheets (wbook s')) \<le> Suc (length (worksheets (wbook s)))"
    | (turn) ws s1 where
        "s1 = s\<lparr>wbook := wbook s\<lparr>worksheets := worksheets (wbook s) @ [ws]\<rparr>,
                 ui := ui s @ [Update_prog (percent i n)]\<rparr>"
        "if stopped (Some k) i then s' = s1 \<and> r = Some SystemExit
         else run_tables db lib (Some k) conn n (Suc i) names s1 = (s', r)"
    by auto
  then show ?case
  proof cases
    case raised
    with Cons.prems(3) show ?thesis by auto
  next
    case turn
    show ?thesis
    proof (cases "stopped (Some k) i")
      case True
      with turn Cons.prems(3) show ?thesis by auto
    next
      case False
      with turn have rest: "run_tables db lib (Some k) conn n (Suc i) names s1 = (s', r)"
        by simp
      from False Cons.prems(3) have "Suc i \<le> k" by (simp add: stopped_def)
      moreover from Cons.prems(2,4) have "Suc i + length names \<le> n" "k < Suc i + length names"
        by simp_all
      ultimately have "r \<noteq> None \<and>
          length (worksheets (wbook s')) \<le> length (worksheets (wbook s1)) + (Suc k - Suc i) \<and>
          length (ui s') \<le> length (ui s1) + (Suc k - Suc i)"
        using Cons.IH [OF rest] by blast
      with turn(1) \<open>Suc i \<le> k\<close> show ?thesis by auto
    qed
  qed
qed

lemma run_tables_stopped_late:
  "i + length names \<le> k \<Longrightarrow>
   run_tables db lib (Some k) conn n i names s = run_tables db lib None conn n i names s"
  by (induction names arbitrary: i s)
    (auto simp: stopped_def Let_def split: sum.splits prod.splits option.splits)

text \<open>
  A run that an uncancelled loop finishes, stopped at the read after table \<open>k\<close>: it ends
  there with \<open>SystemExit\<close>, and what it has done is the beginning of the uncancelled run.
\<close>

lemma run_tables_stopped_prefix:
  assumes "run_tables db lib None conn n i names s = (t, None)"
    and "i + length names \<le> n" and "i \<le> k" and "k < i + length names"
  shows "\<exists>s'. run_tables db lib (Some k) conn n i names s = (s', Some SystemExit) \<and>
           worksheets (wbook s') = take (length (worksheets (wbook s)) + (Suc k - i)) (worksheets (wbook t)) \<and>
           ui s' = take (length (ui s) + (Suc k - i)) (ui t) \<and>
           fileclosed (wbook s') = fileclosed (wbook s)"
  using assms
proof (induction names arbitrary: i s)
  case Nil
  then show ?case by simp
next
  case (Cons name names)
  from Cons.prems(2) have n: "n \<noteq> 0" by auto
  from Cons.prems(1) obtain table where sel: "select_table db conn name = Inr table"
    by (cases "select_table db conn name") auto
  obtain wb e where w: "write_table_to_workbook lib (wbook s) table name = (wb, e)"
    by (cases "write_table_to_workbook lib (wbook s) table name")
  from Cons.prems(1) sel w have e: "e = None" by (cases e) auto
  from write_table_result [OF w] e obtain ws where
    wb: "wb = wbook s\<lparr>worksheets := worksheets (wbook s) @ [ws]\<rparr>"
    by blast
  define s1 where "s1 = s\<lparr>wbook := wb, ui := ui s @ [Update_prog (percent i n)]\<rparr>"
  have turn: "run_tables db lib stop conn n i (name # names) s =
      (if stopped stop i then (s1, Some SystemExit)
       else run_tables db lib stop conn n (Suc i) names s1)" for stop
    using sel w e progress_percent [OF n, of i] by (simp add: s1_def)
  from Cons.prems(1) turn [of None] have rest: "run_tables db lib None conn n (Suc i) names s1 = (t, None)"
    by (simp add: stopped_def)
  from Cons.prems(2) have bound: "Suc i + length names \<le> n" by simp
  from run_tables_workbook [OF rest bound] obtain new where
    new: "worksheets (wbook t) = worksheets (wbook s1) @ new"
    by blast
  from run_tables_ui [OF rest bound] obtain m where
    m: "ui t = ui s1 @ map (\<lambda>j. Update_prog (percent j n)) [Suc i..<Suc i + m]"
    by blast
  show ?case
  proof (cases "k = i")
    case True
    then have "run_tables db lib (Some k) conn n i (name # names) s = (s1, Some SystemExit)"
      using turn [of "Some k"] by (simp add: stopped_def)
    moreover from True have "(Suc k - i) = 1" by simp
    moreover have "take (length (worksheets (wbook s)) + 1) (worksheets (wbook t)) = worksheets (wbook s1)"
      using new by (simp add: s1_def wb)
    moreover have "take (length (ui s) + 1) (ui t) = ui s1"
      using m by (simp add: s1_def)
    moreover have "fileclosed (wbook s1) = fileclosed (wbook s)"
      by (simp add: s1_def wb)
    ultimately show ?thesis by simp
  next
    case False
    with Cons.prems(3) have k: "Suc i \<le> k" by simp
    from Cons.prems(4) have k': "k < Suc i + length names" by simp
    from Cons.IH [OF rest bound k k'] obtain s' where
      s': "run_tables db lib (Some k) conn n (Suc i) names s1 = (s', Some SystemExit)"
        "worksheets (wbook s') =
           take (length (worksheets (wbook s1)) + (Suc k - Suc i)) (worksheets (wbook t))"
        "ui s' = take (length (ui s1) + (Suc k - Suc i)) (ui t)"
        "fileclosed (wbook s') = fileclosed (wbook s1)"
      by blast
    from k have "run_tables db lib (Some k) conn n i (name # names) s = (s', Some SystemExit)"
      using turn [of "Some k"] s'(1) by (simp add: stopped_def)
    moreover from k have "length (worksheets (wbook s1)) + (Suc k - Suc i) =
        length (worksheets (wbook s)) + (Suc k - i)"
      and "length (ui s1) + (Suc k - Suc i) = length (ui s) + (Suc k - i)"
      by (simp_all add: s1_def wb)
    moreover have "fileclosed (wbook s1) = fileclosed (wbook s)"
      by (simp add: s1_def wb)
    ultimately show ?thesis using s'(2,3,4) by simp
  qed
qed

text \<open>
  It is enough that the tables up to \<open>k\<close> are exported: then the run stopped at the read
  after table \<open>k\<close> ends there with \<open>SystemExit\<close>, in the state the export of those tables
  has reached.
\<close>

lemma run_tables_stopped_exit:
  assumes "run_tables db lib None conn n i (take (Suc k - i) names) s = (t, None)"
    and "i + length names \<le> n" and "i \<le> k" and "k < i + length names"
  shows "run_tables db lib (Some k) conn n i names s = (t, Some SystemExit)"
  using assms
proof (induction names arbitrary: i s)
  case Nil
  then show ?case by simp
next
  case (Cons name names)
  from Cons.prems(2) have n: "n \<noteq> 0" by auto
  from Cons.prems(3) have first: "take (Suc k - i) (name # names) = name # take (k - i) names"
    by (simp add: Suc_diff_le)
  from Cons.prems(1) obtain table where sel: "select_table db conn name = Inr table"
    unfolding first by (cases "select_table db conn name") auto
  obtain wb e where w: "write_table_to_workbook lib (wbook s) table name = (wb, e)"
    by (cases "write_table_to_workbook lib (wbook s) table name")
  from Cons.prems(1) sel w have e: "e = None"
    unfolding first by (cases e) auto
  define s1 where "s1 = s\<lparr>wbook := wb, ui := ui s @ [Update_prog (percent i n)]\<rparr>"
  have turn: "run_tables db lib stop conn n i (name # rest) s =
      (if stopped stop i then (s1, Some SystemExit)
       else run_tables db lib stop conn n (Suc i) rest s1)" for stop rest
    using sel w e progress_percent [OF n, of i] by (simp add: s1_def)
  from Cons.prems(1) have rest: "run_tables db lib None conn n (Suc i) (take (k - i) names) s1 = (t, None)"
    unfolding first turn by (simp add: stopped_def)
  show ?case
  proof (cases "k = i")
    case True
    with rest have "t = s1" by simp
    with True show ?thesis unfolding turn by (simp add: stopped_def)
  next
    case False
    with Cons.prems(3) have k: "Suc i \<le> k" by simp
    then have "take (Suc k - Suc i) names = take (k - i) names" by simp
    with rest have "run_tables db lib None conn n (Suc i) (take (Suc k - Suc i) names) s1 = (t, None)"
      by simp
    moreover from Cons.prems(2,4) have "Suc i + length names \<le> n" "k < Suc i + length names"
      by simp_all
    ultimately have "run_tables db lib (Some k) conn n (Suc i) names s1 = (t, Some SystemExit)"
      using k by (intro Cons.IH)
    with k show ?thesis unfolding turn by (simp add: stopped_def)
  qed
qed

subsection \<open>The run\<close>

text \<open>The run once the names of the tables are known.\<close>

lemma run_listed:
  assumes "connect db db_file = Inr conn"
    and "execute db conn master_query = Inr data"
    and "clean_names (concat (fetchall data)) = Inr names"
  shows "run db lib stop_before db_file save_path =
     (case run_tables db lib stop_before conn (length names) 0 names
             \<lparr>wbook = Workbook save_path, ui = [], printed = []\<rparr> of
        (s', Some e) \<Rightarrow> (s', Some e)
      | (s', None) \<Rightarrow>
          (case store_workbook lib (wbook s') of
             Some e \<Rightarrow> (s'\<lparr>ui := ui s' @ [Wait]\<rparr>, Some e)
           | None \<Rightarrow> (s'\<lparr>wbook := wbook s'\<lparr>fileclosed := True\<rparr>, ui := ui s' @ [Wait, Done]\<rparr>, None)))"
  using assms
  by (simp add: run_def create_connection_def close_def Let_def
      split: prod.splits option.splits)

lemma clean_names_text:
  "clean_names (map SqlText names) = Inr (filter (\<lambda>name. \<not> prefix ''sqlite'' name) names)"
  by (induction names) simp_all

lemma clean_names_user_tables:
  assumes "\<forall>name \<in> set names. \<not> prefix ''sqlite'' name"
  shows "clean_names (map SqlText names) = Inr names"
proof -
  from assms have "filter (\<lambda>name. \<not> prefix ''sqlite'' name) names = names"
    by (simp add: filter_id_conv)
  then show ?thesis by (simp add: clean_names_text)
qed

lemma run_demo:
  "run demo_db excel_lib None ''in.db'' ''out.xlsx'' =
    (\<lparr>wbook =
        \<lparr>filename = ''out.xlsx'',
         worksheets =
           [\<lparr>sheet_name = ''users'',
             cells = [(0, 0, SqlText ''id''), (0, 1, SqlText ''name''),
                      (1, 0, SqlInteger 1), (1, 1, SqlText ''Ann''),
                      (2, 0, SqlInteger 2), (2, 1, SqlText ''Bo'')]\<rparr>,
            \<lparr>sheet_name = ''logs'',
             cells = [(0, 0, SqlText ''id''), (0, 1, SqlText ''msg''),
                      (1, 0, SqlInteger 1), (1, 1, SqlText ''ok'')]\<rparr>],
         fileclosed = True\<rparr>,
       ui = [Update_prog 0, Update_prog 50, Wait, Done], printed = []\<rparr>,
     None)"
  by code_simp

lemma demo_connect: "connect demo_db ''in.db'' = Inr ()"
  by (simp add: demo_db_def memory_db_def)

lemma demo_catalogue:
  "execute demo_db () master_query =
     Inr \<lparr>description = [''name''], fetchall = [ [SqlText ''users''], [SqlText ''logs''] ]\<rparr>"
  by (simp add: demo_db_def memory_db_def)

text \<open>
  When no name of the catalogue starts with \<open>sqlite\<close>, the filter removes nothing: a run
  that ends without an exception leaves a closed workbook with one sheet for each name,
  the \<open>k\<close>-th created by \<open>add_worksheet\<close> for the \<open>k\<close>-th table.
\<close>

lemma sheets_of_unfiltered_names:
  assumes "connect db db_file = Inr conn"
    and "execute db conn master_query = Inr data"
    and "concat (fetchall data) = map SqlText names"
    and "\<forall>name \<in> set names. \<not> prefix ''sqlite'' name"
    and "run db lib stop_before db_file save_path = (s', None)"
  shows "length (worksheets (wbook s')) = length names \<and>
         fileclosed (wbook s') \<and>
         (\<forall>k < length names.
            check_sheetname lib (map sheet_name (take k (worksheets (wbook s')))) (names ! k)
              = Inr (sheet_name (worksheets (wbook s') ! k)))"
proof -
  let ?s0 = "\<lparr>wbook = Workbook save_path, ui = [], printed = []\<rparr>"
  from assms(3,4) have cleaned: "clean_names (concat (fetchall data)) = Inr names"
    by (simp add: clean_names_user_tables)
  obtain t r where loop: "run_tables db lib stop_before conn (length names) 0 names ?s0 = (t, r)"
    by (cases "run_tables db lib stop_before conn (length names) 0 names ?s0")
  from assms(5) loop have r: "r = None"
    unfolding run_listed [OF assms(1,2) cleaned] by (cases r) auto
  from assms(5) loop r have s': "s' = t\<lparr>wbook := wbook t\<lparr>fileclosed := True\<rparr>, ui := ui t @ [Wait, Done]\<rparr>"
    unfolding run_listed [OF assms(1,2) cleaned] by (auto split: option.splits)
  from run_tables_workbook [OF loop] r obtain new where
    new: "worksheets (wbook t) = worksheets (wbook ?s0) @ new" "length new = length names"
      "\<forall>k < length names.
         check_sheetname lib (map sheet_name (worksheets (wbook ?s0) @ take k new)) (names ! k)
           = Inr (sheet_name (new ! k))"
    by auto
  from new(1) s' have sheets: "worksheets (wbook s') = new" by (simp add: Workbook_def)
  with new(2,3) s' show ?thesis by (simp add: Workbook_def)
qed

text \<open>
  Claim C7. A database with \<open>N\<close> user tables and no system table gets \<open>N\<close> sheets. The
  code removes every name that starts with \<open>sqlite\<close>, not only the reserved names, which
  start with \<open>sqlite_\<close>. The database with the user tables \<open>sqlitedata\<close> and \<open>users\<close> has no
  system table; the run over it ends without an exception and closes a workbook with
  one sheet, \<open>users\<close>.
\<close>

theorem user_table_sqlitedata_gets_no_sheet:
  "\<not> prefix ''sqlite_'' ''sqlitedata'' \<and>
   execute sqlitedata_db () master_query =
     Inr \<lparr>description = [''name''], fetchall = [ [SqlText ''sqlitedata''], [SqlText ''users''] ]\<rparr> \<and>
   clean_names [SqlText ''sqlitedata'', SqlText ''users''] = Inr [''users''] \<and>
   run sqlitedata_db excel_lib None ''in.db'' ''out.xlsx'' =
     (\<lparr>wbook =
        \<lparr>filename = ''out.xlsx'',
         worksheets =
           [\<lparr>sheet_name = ''users'',
             cells = [(0, 0, SqlText ''id''), (0, 1, SqlText ''name''),
                      (1, 0, SqlInteger 1), (1, 1, SqlText ''Ann''),
                      (2, 0, SqlInteger 2), (2, 1, SqlText ''Bo'')]\<rparr>],
         fileclosed = True\<rparr>,
       ui = [Update_prog 0, Wait, Done], printed = []\<rparr>,
      None)"
  by code_simp

subsection \<open>Cancellation\<close>

text \<open>
  Claim C4, as the code has it. The flag is read once after each table, when the table
  has been written and its progress emitted. When \<open>stop()\<close> runs before the read that
  follows table \<open>k\<close>, with \<open>k\<close> less than the number of tables, the run ends with an
  exception, the workbook is not closed, neither \<open>wait\<close> nor \<open>done\<close> is emitted, and at
  most the tables \<open>0, \<dots>, k\<close> have a sheet; if the uncancelled run succeeds, the stopped
  run ends with \<open>SystemExit\<close> and has made exactly the first \<open>k + 1\<close> sheets and progress
  signals of it. When \<open>stop()\<close> runs after the last read, or there is no table, the flag
  is not read any more and the run is the uncancelled one.
\<close>

theorem stop_read_after_each_table:
  assumes "connect db db_file = Inr conn"
    and "execute db conn master_query = Inr data"
    and "clean_names (concat (fetchall data)) = Inr names"
  shows "(k < length names \<longrightarrow>
            snd (run db lib (Some k) db_file save_path) \<noteq> None \<and>
            \<not> fileclosed (wbook (fst (run db lib (Some k) db_file save_path))) \<and>
            Wait \<notin> set (ui (fst (run db lib (Some k) db_file save_path))) \<and>
            Done \<notin> set (ui (fst (run db lib (Some k) db_file save_path))) \<and>
            length (worksheets (wbook (fst (run db lib (Some k) db_file save_path)))) \<le> Suc k) \<and>
         (k < length names \<and> run db lib None db_file save_path = (t, None) \<longrightarrow>
            snd (run db lib (Some k) db_file save_path) = Some SystemExit \<and>
            worksheets (wbook (fst (run db lib (Some k) db_file save_path)))
              = take (Suc k) (worksheets (wbook t)) \<and>
            ui (fst (run db lib (Some k) db_file save_path)) = take (Suc k) (ui t)) \<and>
         (length names \<le> k \<longrightarrow>
            run db lib (Some k) db_file save_path = run db lib None db_file save_path)"
proof (intro conjI impI)
  let ?s0 = "\<lparr>wbook = Workbook save_path, ui = [], printed = []\<rparr>"
  let ?run = "run db lib (Some k) db_file save_path"
  assume k: "k < length names"
  obtain s' r where loop: "run_tables db lib (Some k) conn (length names) 0 names ?s0 = (s', r)"
    by (cases "run_tables db lib (Some k) conn (length names) 0 names ?s0")
  from run_tables_stopped [OF loop] k have
    r: "r \<noteq> None" and sheets: "length (worksheets (wbook s')) \<le> Suc k"
    by (simp_all add: Workbook_def)
  from r loop have result: "?run = (s', r)"
    unfolding run_listed [OF assms] by auto
  from run_tables_workbook [OF loop] have closed: "\<not> fileclosed (wbook s')"
    by (auto simp: Workbook_def)
  from run_tables_ui [OF loop] obtain m where
    "ui s' = map (\<lambda>j. Update_prog (percent j (length names))) [0..<m]"
    by auto
  then have signals: "Wait \<notin> set (ui s')" "Done \<notin> set (ui s')" by auto
  from result r show "snd ?run \<noteq> None" by simp
  from result closed show "\<not> fileclosed (wbook (fst ?run))" by simp
  from result signals show "Wait \<notin> set (ui (fst ?run))" and "Done \<notin> set (ui (fst ?run))"
    by simp_all
  from result sheets show "length (worksheets (wbook (fst ?run))) \<le> Suc k" by simp
next
  let ?s0 = "\<lparr>wbook = Workbook save_path, ui = [], printed = []\<rparr>"
  let ?run = "run db lib (Some k) db_file save_path"
  assume "k < length names \<and> run db lib None db_file save_path = (t, None)"
  then have k: "k < length names" and full: "run db lib None db_file save_path = (t, None)"
    by simp_all
  obtain u r where loop: "run_tables db lib None conn (length names) 0 names ?s0 = (u, r)"
    by (cases "run_tables db lib None conn (length names) 0 names ?s0")
  from full loop have r: "r = None"
    unfolding run_listed [OF assms] by (cases r) auto
  from full loop r have t: "t = u\<lparr>wbook := wbook u\<lparr>fileclosed := True\<rparr>, ui := ui u @ [Wait, Done]\<rparr>"
    unfolding run_listed [OF assms] by (auto split: option.splits)
  from run_tables_ui [OF loop] r have "length (ui u) = length names" by auto
  with k have k_ui: "Suc k \<le> length (ui u)" by simp
  from loop r have "run_tables db lib None conn (length names) 0 names ?s0 = (u, None)" by simp
  from run_tables_stopped_prefix [OF this, of k] k obtain s' where
    s': "run_tables db lib (Some k) conn (length names) 0 names ?s0 = (s', Some SystemExit)"
      "worksheets (wbook s') = take (Suc k) (worksheets (wbook u))"
      "ui s' = take (Suc k) (ui u)"
    by (auto simp: Workbook_def)
  from s'(1) have result: "?run = (s', Some SystemExit)"
    unfolding run_listed [OF assms] by simp
  from result show "snd ?run = Some SystemExit" by simp
  from result s'(2) t show "worksheets (wbook (fst ?run)) = take (Suc k) (worksheets (wbook t))"
    by simp
  from result s'(3) t k_ui show "ui (fst ?run) = take (Suc k) (ui t)"
    by simp
next
  assume "length names \<le> k"
  then have "run_tables db lib (Some k) conn (length names) 0 names s =
      run_tables db lib None conn (length names) 0 names s" for s
    by (simp add: run_tables_stopped_late)
  then show "run db lib (Some k) db_file save_path = run db lib None db_file save_path"
    unfolding run_listed [OF assms] by simp
qed

theorem stop_read_after_each_table_witness:
  "snd (run demo_db excel_lib (Some 0) ''in.db'' ''out.xlsx'') = Some SystemExit \<and>
   \<not> fileclosed (wbook (fst (run demo_db excel_lib (Some 0) ''in.db'' ''out.xlsx''))) \<and>
   map sheet_name (worksheets (wbook (fst (run demo_db excel_lib (Some 0) ''in.db'' ''out.xlsx''))))
     = [''users''] \<and>
   ui (fst (run demo_db excel_lib (Some 0) ''in.db'' ''out.xlsx'')) = [Update_prog 0] \<and>
   run demo_db excel_lib (Some 2) ''in.db'' ''out.xlsx'' = run demo_db excel_lib None ''in.db'' ''out.xlsx''"
proof -
  have cleaned: "clean_names (concat (fetchall \<lparr>description = [''name''],
      fetchall = [ [SqlText ''users''], [SqlText ''logs''] ]\<rparr>)) = Inr [''users'', ''logs'']"
    by simp
  note early = stop_read_after_each_table [OF demo_connect demo_catalogue cleaned,
      of 0 excel_lib "''out.xlsx''" "fst (run demo_db excel_lib None ''in.db'' ''out.xlsx'')"]
  note late = stop_read_after_each_table [OF demo_connect demo_catalogue cleaned,
      of 2 excel_lib "''out.xlsx''" "fst (run demo_db excel_lib None ''in.db'' ''out.xlsx'')"]
  from early late show ?thesis by (simp add: run_demo)
qed

text \<open>
  Claim C4 as the specification states it: once the flag is set, the workbook is not
  closed and \<open>done\<close> is not emitted. A database without tables contradicts it: the flag is
  never read, and a run whose flag was set before it began closes the workbook and emits
  \<open>done\<close>.
\<close>

theorem stop_unread_without_tables:
  "run (memory_db ''in.db'' []) excel_lib (Some 0) ''in.db'' ''out.xlsx'' =
     (\<lparr>wbook = \<lparr>filename = ''out.xlsx'', worksheets = [], fileclosed = True\<rparr>,
       ui = [Wait, Done], printed = []\<rparr>, None)"
  by (simp add: run_def create_connection_def memory_db_def close_def excel_lib_def Workbook_def)

subsection \<open>Names of sheets\<close>

text \<open>
  Claim C9, as the code has it. \<open>write_table_to_workbook\<close> hands the name of the table to
  \<open>add_worksheet\<close> as it is. When the library rejects the name, the write fails with the
  library's exception and the workbook is unchanged; otherwise the sheet is created under
  the name the library returns. Nothing in the program shortens a name, replaces a
  character or adds a suffix.
\<close>

theorem sheet_name_not_sanitized:
  "(check_sheetname lib (map sheet_name (worksheets wb)) name = Inl e \<longrightarrow>
      write_table_to_workbook lib wb table name = (wb, Some e)) \<and>
   (check_sheetname lib (map sheet_name (worksheets wb)) name = Inr n \<longrightarrow>
      (\<exists>ws r. write_table_to_workbook lib wb table name =
                 (wb\<lparr>worksheets := worksheets wb @ [ws]\<rparr>, r) \<and> sheet_name ws = n))"
proof (intro conjI impI)
  assume "check_sheetname lib (map sheet_name (worksheets wb)) name = Inl e"
  then show "write_table_to_workbook lib wb table name = (wb, Some e)"
    by (simp add: write_table_to_workbook_def)
next
  assume accepted: "check_sheetname lib (map sheet_name (worksheets wb)) name = Inr n"
  show "\<exists>ws r. write_table_to_workbook lib wb table name =
            (wb\<lparr>worksheets := worksheets wb @ [ws]\<rparr>, r) \<and> sheet_name ws = n"
  proof (cases table)
    case Nil
    with accepted have "write_table_to_workbook lib wb table name =
        (wb\<lparr>worksheets := worksheets wb @ [\<lparr>sheet_name = n, cells = []\<rparr>]\<rparr>, Some IndexError)"
      by (simp add: write_table_to_workbook_def)
    moreover have "sheet_name \<lparr>sheet_name = n, cells = []\<rparr> = n" by simp
    ultimately show ?thesis by blast
  next
    case (Cons header rows)
    obtain ws r where
      w: "write_rows \<lparr>sheet_name = n, cells = []\<rparr> 0 (header # rows) [0..<length header] = (ws, r)"
      by (cases "write_rows \<lparr>sheet_name = n, cells = []\<rparr> 0 (header # rows) [0..<length header]")
    from w have "sheet_name ws = sheet_name \<lparr>sheet_name = n, cells = []\<rparr>"
      by (rule write_rows_sheet_name)
    then have "sheet_name ws = n" by simp
    moreover from accepted Cons w have "write_table_to_workbook lib wb table name =
        (wb\<lparr>worksheets := worksheets wb @ [ws]\<rparr>, r)"
      by (simp add: write_table_to_workbook_def)
    ultimately show ?thesis by blast
  qed
qed

theorem sheet_name_not_sanitized_witness:
  "write_table_to_workbook excel_lib (Workbook ''out.xlsx'') [ [SqlText ''id''] ]
       ''measurements_of_the_year_2018_q1'' = (Workbook ''out.xlsx'', Some (XlsxError ''InvalidWorksheetName'')) \<and>
   (\<exists>ws r. write_table_to_workbook excel_lib (Workbook ''out.xlsx'') [ [SqlText ''id''] ] ''users'' =
              (Workbook ''out.xlsx''\<lparr>worksheets := [ws]\<rparr>, r) \<and> sheet_name ws = ''users'')"
proof -
  have rejected: "check_sheetname excel_lib (map sheet_name (worksheets (Workbook ''out.xlsx'')))
      ''measurements_of_the_year_2018_q1'' = Inl (XlsxError ''InvalidWorksheetName'')"
    by (simp add: excel_lib_def excel_check_def)
  have accepted: "check_sheetname excel_lib (map sheet_name (worksheets (Workbook ''out.xlsx''))) ''users''
      = Inr ''users''"
    by (simp add: excel_lib_def excel_check_def forbidden_chars_def Workbook_def)
  from sheet_name_not_sanitized [of excel_lib "Workbook ''out.xlsx''" "''measurements_of_the_year_2018_q1''"
      "XlsxError ''InvalidWorksheetName''" "[ [SqlText ''id''] ]"] rejected
    sheet_name_not_sanitized [of excel_lib "Workbook ''out.xlsx''" "''users''" _
      "[ [SqlText ''id''] ]" "''users''"] accepted
  show ?thesis by (simp add: Workbook_def)
qed

text \<open>
  Claim C9 as the specification states it: the name is cut to the limit of the format and
  the correction is never reported. A table whose name has 32 characters contradicts it:
  the name reaches the library whole, the library raises, and the write fails.
\<close>

theorem long_sheet_name_is_an_error:
  "length ''measurements_of_the_year_2018_q1'' = 32 \<and>
   write_table_to_workbook excel_lib (Workbook ''out.xlsx'') [ [SqlText ''id''] ]
       ''measurements_of_the_year_2018_q1'' = (Workbook ''out.xlsx'', Some (XlsxError ''InvalidWorksheetName''))"
  by (simp add: write_table_to_workbook_def excel_lib_def excel_check_def)

subsection \<open>Opening the database\<close>




subsection \<open>The statement that reads a table\<close>

lemma read_quoted_plain:
  "quote \<notin> set name \<Longrightarrow> read_quoted acc (name @ [quote]) = Some (rev acc @ name, [])"
proof (induction name arbitrary: acc)
  case Nil
  show ?case by simp
next
  case (Cons c cs)
  then have "read_quoted (c # acc) (cs @ [quote]) = Some (rev (c # acc) @ cs, [])" by simp
  with Cons.prems show ?case by (cases cs) auto
qed

lemma parse_select_plain:
  "quote \<notin> set name \<Longrightarrow> parse_select (select_query name) = Some name"
  using read_quoted_plain [of name "[]"]
  by (simp add: parse_select_def select_query_def)

text \<open>
  Claim C8. The name of the table is put between single quotes, which is enough for a
  name with spaces or double quotes (\<open>parse_select_plain\<close>); a single quote inside the
  name is not doubled. For the table \<open>it's\<close> the statement is \<open>SELECT * FROM 'it's'\<close>: the
  quoted name ends after \<open>it\<close>, the rest does not parse, and reading the table fails with
  a syntax error.
\<close>

theorem select_query_quote_not_escaped:
  "select_query ''it's'' = ''SELECT * FROM 'it's'' @ [quote] \<and>
   parse_select (select_query ''it's'') = None \<and>
   select_table (memory_db ''in.db'' [(''it's'', \<lparr>description = [''id''], fetchall = []\<rparr>)]) ()
     ''it's'' = Inl (SqliteError ''syntax error'')"
  by (simp add: select_query_def parse_select_def is_comment_def select_table_def memory_db_def
      quote_def master_query_def)

lemma memory_db_select:
  assumes "quote \<notin> set name" and "map_of tables name = Some cur"
  shows "execute (memory_db file tables) conn (select_query name) = Inr cur"
proof -
  from assms(1) have "parse_select (select_query name) = Some name"
    by (rule parse_select_plain)
  moreover have "select_query name \<noteq> master_query"
    by (simp add: select_query_def master_query_def)
  ultimately show ?thesis using assms(2) by (simp add: memory_db_def)
qed

text \<open>
  Claim C1. The sheet written for a table holds the column names and the rows of that
  table. It does when the name of the table has no single quote (\<open>memory_db_select\<close> and
  \<open>sheet_holds_result_of_statement\<close>). For the table \<open>a'--\<close>, whose own column is \<open>p\<close> and
  whose own row is \<open>(9)\<close>, the statement is \<open>SELECT * FROM 'a'--'\<close>: the quoted name ends
  after \<open>a\<close> and a comment follows, so the statement reads the table \<open>a\<close>. The sheet named
  \<open>a'--\<close> holds the column names \<open>x\<close>, \<open>y\<close> and the row \<open>(1, 2)\<close> of the table \<open>a\<close>.
\<close>

theorem sheet_of_quoted_name_holds_other_table:
  "map_of quoted_tables ''a'--'' = Some \<lparr>description = [''p''], fetchall = [ [SqlInteger 9] ]\<rparr> \<and>
   select_query ''a'--'' = ''SELECT * FROM 'a'--'' @ [quote] \<and>
   select_table quoted_db () ''a'--'' =
     Inr [ [SqlText ''x'', SqlText ''y''], [SqlInteger 1, SqlInteger 2] ] \<and>
   snd (run quoted_db excel_lib None ''in.db'' ''out.xlsx'') = None \<and>
   sheet_name (worksheets (wbook (fst (run quoted_db excel_lib None ''in.db'' ''out.xlsx''))) ! 1)
     = ''a'--'' \<and>
   sheet_row (worksheets (wbook (fst (run quoted_db excel_lib None ''in.db'' ''out.xlsx''))) ! 1) 0
     = [SqlText ''x'', SqlText ''y''] \<and>
   sheet_row (worksheets (wbook (fst (run quoted_db excel_lib None ''in.db'' ''out.xlsx''))) ! 1) 1
     = [SqlInteger 1, SqlInteger 2]"
  by code_simp

subsection \<open>Rounding to a double\<close>

lemma round_half_even_close:
  "\<bar>of_int (round_half_even x) - x\<bar> \<le> 1 / 2"
proof -
  have "of_int \<lfloor>x\<rfloor> \<le> x" and "x < of_int \<lfloor>x\<rfloor> + 1" by linarith+
  then show ?thesis
    by (auto simp: round_half_even_def Let_def)
qed

lemma round_half_even_of_int: "round_half_even (of_int k) = k"
  by (simp add: round_half_even_def)

lemma round_half_even_le_floor_Suc: "round_half_even x \<le> \<lfloor>x\<rfloor> + 1"
  by (simp add: round_half_even_def Let_def)

lemma floor_le_round_half_even: "\<lfloor>x\<rfloor> \<le> round_half_even x"
  by (simp add: round_half_even_def Let_def)

lemma round_half_even_mono:
  assumes "x \<le> y"
  shows "round_half_even x \<le> round_half_even y"
proof (cases "\<lfloor>x\<rfloor> = \<lfloor>y\<rfloor>")
  case True
  from assms have "x - of_int \<lfloor>x\<rfloor> \<le> y - of_int \<lfloor>x\<rfloor>" by simp
  with True show ?thesis
    by (auto simp: round_half_even_def Let_def)
next
  case False
  from assms have "\<lfloor>x\<rfloor> \<le> \<lfloor>y\<rfloor>" by (rule floor_mono)
  with False have "\<lfloor>x\<rfloor> + 1 \<le> \<lfloor>y\<rfloor>" by simp
  with round_half_even_le_floor_Suc [of x] floor_le_round_half_even [of y]
  show ?thesis by linarith
qed

lemma bit_length_bounds:
  "0 < n \<Longrightarrow> 2 ^ (bit_length n - 1) \<le> n \<and> n < 2 ^ bit_length n"
proof (induction n rule: bit_length.induct)
  case (1 n)
  show ?case
  proof (cases "n = 1")
    case True
    then show ?thesis by (simp add: bit_length.simps [of 1] bit_length.simps [of 0])
  next
    case False
    with "1.prems" have half: "0 < n div 2" by simp
    with "1.prems" "1.IH" have ih: "2 ^ (bit_length (n div 2) - 1) \<le> n div 2"
        "n div 2 < 2 ^ bit_length (n div 2)"
      by simp_all
    from half have pos: "0 < bit_length (n div 2)"
      by (simp add: bit_length.simps [of "n div 2"])
    have len: "bit_length n = Suc (bit_length (n div 2))"
      using "1.prems" by (simp add: bit_length.simps [of n])
    from pos have "(2::int) ^ (bit_length n - 1) = 2 * 2 ^ (bit_length (n div 2) - 1)"
      unfolding len by (cases "bit_length (n div 2)") simp_all
    with ih(1) have lower: "2 ^ (bit_length n - 1) \<le> n" by linarith
    from ih(2) have "n div 2 + 1 \<le> 2 ^ bit_length (n div 2)" by simp
    then have "n < 2 * 2 ^ bit_length (n div 2)" by linarith
    then have upper: "n < 2 ^ bit_length n" unfolding len by simp
    from lower upper show ?thesis by simp
  qed
qed

lemma binade_bounds:
  assumes "0 < x"
  shows "2 powi binade x \<le> x \<and> x < 2 powi (binade x + 1)"
proof -
  obtain a b where q: "quotient_of x = (a, b)" by (cases "quotient_of x")
  then have b: "0 < b" by (rule quotient_of_denom_pos)
  from q have x: "x = of_int a / of_int b" by (rule quotient_of_div)
  with assms b have a: "0 < a" by (simp add: zero_less_divide_iff)
  define la lb where "la = bit_length a" and "lb = bit_length b"
  define e where "e = int la - int lb"
  from bit_length_bounds [OF a] have a_lo: "2 ^ (la - 1) \<le> a" and a_hi: "a < 2 ^ la"
    by (simp_all add: la_def)
  from bit_length_bounds [OF b] have b_lo: "2 ^ (lb - 1) \<le> b" and b_hi: "b < 2 ^ lb"
    by (simp_all add: lb_def)
  from a a_hi have la: "0 < la" by (cases la) simp_all
  from b b_hi have lb: "0 < lb" by (cases lb) simp_all
  have ra_lo: "(2::rat) ^ (la - 1) \<le> of_int a"
    using a_lo by (metis of_int_le_iff of_int_numeral of_int_power)
  have ra_hi: "(of_int a :: rat) < 2 ^ la"
    using a_hi by (metis of_int_less_iff of_int_numeral of_int_power)
  have rb_lo: "(2::rat) ^ (lb - 1) \<le> of_int b"
    using b_lo by (metis of_int_le_iff of_int_numeral of_int_power)
  have rb_hi: "(of_int b :: rat) \<le> 2 ^ lb"
    using b_hi by (metis less_imp_le of_int_less_iff of_int_numeral of_int_power)
  have "x < 2 ^ la / 2 ^ (lb - 1)"
    unfolding x using a ra_hi rb_lo by (intro frac_less) simp_all
  also have "(2::rat) ^ la / 2 ^ (lb - 1) = 2 powi (int la) / 2 powi (int (lb - 1))"
    by simp
  also have "\<dots> = 2 powi (int la - int (lb - 1))"
    by (simp add: power_int_diff)
  also from lb have "int la - int (lb - 1) = e + 1" by (simp add: e_def of_nat_diff)
  finally have upper: "x < 2 powi (e + 1)" .
  from la have "e - 1 = int (la - 1) - int lb" by (simp add: e_def of_nat_diff)
  then have "(2::rat) powi (e - 1) = 2 powi (int (la - 1) - int lb)" by simp
  also have "\<dots> = 2 ^ (la - 1) / 2 ^ lb"
    by (simp add: power_int_diff)
  also have "\<dots> \<le> x"
    unfolding x using b a ra_lo rb_hi by (intro frac_le) simp_all
  finally have lower: "2 powi (e - 1) \<le> x" .
  have "binade x = (if 2 powi e \<le> x then e else e - 1)"
    by (simp add: binade_def q e_def la_def lb_def Let_def)
  with upper lower show ?thesis by (auto simp: not_le)
qed

lemma binade_less:
  assumes "0 < x" and "x < 2 powi k"
  shows "binade x < k"
proof -
  from binade_bounds [OF assms(1)] assms(2) have "(2::rat) powi binade x < 2 powi k" by simp
  then show ?thesis
    by (metis not_le one_le_numeral power_int_increasing)
qed

lemma binade_mono:
  assumes "0 < x" and "x \<le> y"
  shows "binade x \<le> binade y"
proof -
  from assms have y: "0 < y" by simp
  from binade_bounds [OF assms(1)] binade_bounds [OF y] assms(2)
  have "(2::rat) powi binade x < 2 powi (binade y + 1)" by simp
  then have "binade x < binade y + 1"
    by (metis not_le one_le_numeral power_int_increasing)
  then show ?thesis by simp
qed

lemma pow2_add: "(2::rat) powi (a + b) = 2 powi a * 2 powi b"
  by (simp add: power_int_add)

lemma pow2_diff: "(2::rat) powi (a - b) = 2 powi a / 2 powi b"
  by (simp add: power_int_diff)

lemma round_binary64_pos:
  "0 < x \<Longrightarrow> round_binary64 x =
     of_int (round_half_even (x / 2 powi (max (binade x) (- 1022) - 52))) *
       2 powi (max (binade x) (- 1022) - 52)"
  by (simp add: round_binary64_def Let_def)

lemma round_binary64_nonneg:
  assumes "0 \<le> x"
  shows "0 \<le> round_binary64 x"
proof (cases "x = 0")
  case True
  then show ?thesis by (simp add: round_binary64_def)
next
  case False
  with assms have x: "0 < x" by simp
  let ?e = "max (binade x) (- 1022) - 52"
  from x have "0 \<le> x / 2 powi ?e" by simp
  then have "0 \<le> \<lfloor>x / 2 powi ?e\<rfloor>" by simp
  with floor_le_round_half_even [of "x / 2 powi ?e"]
  have "0 \<le> round_half_even (x / 2 powi ?e)" by linarith
  then show ?thesis by (simp add: round_binary64_pos [OF x])
qed

lemma round_binary64_mono:
  assumes "0 \<le> x" and "x \<le> y"
  shows "round_binary64 x \<le> round_binary64 y"
proof (cases "x = 0")
  case True
  from assms have "0 \<le> round_binary64 y" by (intro round_binary64_nonneg) simp
  with True show ?thesis by (simp add: round_binary64_def)
next
  case False
  with assms have x: "0 < x" and y: "0 < y" by simp_all
  define mx my where "mx = max (binade x) (- 1022)" and "my = max (binade y) (- 1022)"
  from binade_mono [OF x assms(2)] have m: "mx \<le> my" by (simp add: mx_def my_def)
  have rx: "round_binary64 x = of_int (round_half_even (x / 2 powi (mx - 52))) * 2 powi (mx - 52)"
    by (simp add: round_binary64_pos [OF x] mx_def)
  have ry: "round_binary64 y = of_int (round_half_even (y / 2 powi (my - 52))) * 2 powi (my - 52)"
    by (simp add: round_binary64_pos [OF y] my_def)
  show ?thesis
  proof (cases "mx = my")
    case True
    from assms(2) have "x / 2 powi (my - 52) \<le> y / 2 powi (my - 52)"
      by (simp add: divide_right_mono)
    then have "round_half_even (x / 2 powi (my - 52)) \<le> round_half_even (y / 2 powi (my - 52))"
      by (rule round_half_even_mono)
    then show ?thesis
      unfolding rx ry True by (simp add: mult_right_mono)
  next
    case False
    with m have less: "mx + 1 \<le> my" by simp
    then have "- 1022 < my" by (simp add: mx_def)
    then have my: "my = binade y" by (simp add: my_def)
    \<comment> \<open>\<open>x\<close> rounds to at most \<open>2 powi (mx + 1)\<close>\<close>
    from binade_bounds [OF x] have "x < 2 powi (binade x + 1)" by simp
    also have "\<dots> \<le> 2 powi (mx + 1)"
      by (rule power_int_increasing) (simp_all add: mx_def)
    finally have "x / 2 powi (mx - 52) \<le> 2 powi (mx + 1) / 2 powi (mx - 52)"
      by (simp add: divide_right_mono)
    also have "(2::rat) powi (mx + 1) / 2 powi (mx - 52) = 2 powi ((mx + 1) - (mx - 52))"
      by (rule pow2_diff [symmetric])
    also have "(mx + 1) - (mx - 52) = 53" by simp
    also have "(2::rat) powi 53 = of_int (2 ^ 53)" by simp
    finally have "round_half_even (x / 2 powi (mx - 52)) \<le> round_half_even (of_int (2 ^ 53))"
      by (rule round_half_even_mono)
    then have "round_half_even (x / 2 powi (mx - 52)) \<le> 2 ^ 53"
      by (simp only: round_half_even_of_int)
    then have "(of_int (round_half_even (x / 2 powi (mx - 52))) :: rat) \<le> of_int (2 ^ 53)"
      by (simp only: of_int_le_iff)
    then have "round_binary64 x \<le> of_int (2 ^ 53) * 2 powi (mx - 52)"
      unfolding rx by (simp add: mult_right_mono)
    also have "(of_int (2 ^ 53) :: rat) = 2 powi 53" by simp
    also have "(2::rat) powi 53 * 2 powi (mx - 52) = 2 powi (53 + (mx - 52))"
      by (rule pow2_add [symmetric])
    also have "53 + (mx - 52) = mx + 1" by simp
    also have "(2::rat) powi (mx + 1) \<le> 2 powi my"
      using less by (intro power_int_increasing) simp_all
    finally have upper: "round_binary64 x \<le> 2 powi my" .
    \<comment> \<open>\<open>y\<close> rounds to at least \<open>2 powi my\<close>\<close>
    have "(of_int (2 ^ 52) :: rat) = 2 powi 52" by simp
    also have "52 = my - (my - 52)" by simp
    also have "(2::rat) powi (my - (my - 52)) = 2 powi my / 2 powi (my - 52)"
      by (rule pow2_diff)
    also from binade_bounds [OF y] have "\<dots> \<le> y / 2 powi (my - 52)"
      by (simp add: my divide_right_mono)
    finally have "round_half_even (of_int (2 ^ 52)) \<le> round_half_even (y / 2 powi (my - 52))"
      by (rule round_half_even_mono)
    then have "2 ^ 52 \<le> round_half_even (y / 2 powi (my - 52))"
      by (simp only: round_half_even_of_int)
    then have "(of_int (2 ^ 52) :: rat) \<le> of_int (round_half_even (y / 2 powi (my - 52)))"
      by (simp only: of_int_le_iff)
    then have "of_int (2 ^ 52) * 2 powi (my - 52) \<le> round_binary64 y"
      unfolding ry by (simp add: mult_right_mono)
    moreover have "(of_int (2 ^ 52) :: rat) * 2 powi (my - 52) = 2 powi my"
    proof -
      have "(of_int (2 ^ 52) :: rat) * 2 powi (my - 52) = 2 powi 52 * 2 powi (my - 52)" by simp
      also have "\<dots> = 2 powi (52 + (my - 52))" by (rule pow2_add [symmetric])
      also have "52 + (my - 52) = my" by simp
      finally show ?thesis .
    qed
    ultimately have "2 powi my \<le> round_binary64 y" by simp
    with upper show ?thesis by simp
  qed
qed

lemma round_binary64_close:
  assumes "0 < x" and "x < 2 powi (k + 1)" and "- 1022 \<le> k"
  shows "\<bar>round_binary64 x - x\<bar> \<le> 2 powi (k - 53)"
proof -
  define e where "e = max (binade x) (- 1022) - 52"
  have pos: "(0::rat) < 2 powi e" by simp
  from binade_less [OF assms(1,2)] assms(3) have "e \<le> k - 52" by (simp add: e_def)
  then have "(2::rat) powi e \<le> 2 powi (k - 52)"
    by (intro power_int_increasing) simp_all
  moreover have "(2::rat) powi (k - 52) = 2 * 2 powi (k - 53)"
  proof -
    have "k - 52 = 1 + (k - 53)" by simp
    then have "(2::rat) powi (k - 52) = 2 powi (1 + (k - 53))" by simp
    also have "\<dots> = 2 powi 1 * 2 powi (k - 53)" by (rule pow2_add)
    finally show ?thesis by simp
  qed
  ultimately have ulp: "(2::rat) powi e / 2 \<le> 2 powi (k - 53)" by simp
  have "round_binary64 x - x = (of_int (round_half_even (x / 2 powi e)) - x / 2 powi e) * 2 powi e"
    by (simp add: round_binary64_pos [OF assms(1)] e_def algebra_simps)
  then have "\<bar>round_binary64 x - x\<bar> = \<bar>of_int (round_half_even (x / 2 powi e)) - x / 2 powi e\<bar> * 2 powi e"
    by (simp add: abs_mult)
  also have "\<dots> \<le> 1 / 2 * 2 powi e"
    using round_half_even_close [of "x / 2 powi e"] by (intro mult_right_mono) simp_all
  finally show ?thesis using ulp by simp
qed

lemma round_binary64_one: "round_binary64 1 = 1"
  by code_simp

lemma round_binary64_hundred: "round_binary64 100 = 100"
  by code_simp

lemma percent_floor:
  "percent i n = \<lfloor>round_binary64 (round_binary64 (of_nat i / of_nat n) * 100)\<rfloor>"
proof -
  have "0 \<le> round_binary64 (of_nat i / of_nat n)"
    by (rule round_binary64_nonneg) simp
  then have "0 \<le> round_binary64 (round_binary64 (of_nat i / of_nat n) * 100)"
    by (intro round_binary64_nonneg) simp
  then show ?thesis by (simp add: percent_def py_int_def py_float_mul_def)
qed

lemma percent_mono:
  assumes "i \<le> j"
  shows "percent i n \<le> percent j n"
proof -
  from assms have "(of_nat i / of_nat n :: rat) \<le> of_nat j / of_nat n"
    by (simp add: divide_right_mono)
  then have q: "round_binary64 (of_nat i / of_nat n) \<le> round_binary64 (of_nat j / of_nat n)"
    by (intro round_binary64_mono) simp_all
  have "0 \<le> round_binary64 (of_nat i / of_nat n)"
    by (rule round_binary64_nonneg) simp
  with q have "round_binary64 (round_binary64 (of_nat i / of_nat n) * 100)
      \<le> round_binary64 (round_binary64 (of_nat j / of_nat n) * 100)"
    by (intro round_binary64_mono) simp_all
  then show ?thesis unfolding percent_floor by (rule floor_mono)
qed

lemma percent_range:
  assumes "i < n"
  shows "0 \<le> percent i n \<and> percent i n \<le> 100"
proof -
  let ?q = "round_binary64 (of_nat i / of_nat n)"
  have q0: "0 \<le> ?q" by (rule round_binary64_nonneg) simp
  then have "0 \<le> round_binary64 (?q * 100)" by (intro round_binary64_nonneg) simp
  then have lower: "0 \<le> percent i n" unfolding percent_floor by simp
  from assms have "(of_nat i / of_nat n :: rat) \<le> 1" by simp
  then have "?q \<le> round_binary64 1" by (intro round_binary64_mono) simp_all
  then have "?q * 100 \<le> 100" by (simp add: round_binary64_one)
  with q0 have "round_binary64 (?q * 100) \<le> round_binary64 100"
    by (intro round_binary64_mono) simp_all
  then have "round_binary64 (?q * 100) \<le> 100" by (simp add: round_binary64_hundred)
  then have "\<lfloor>round_binary64 (?q * 100)\<rfloor> \<le> \<lfloor>100 :: rat\<rfloor>" by (rule floor_mono)
  then have "percent i n \<le> 100" unfolding percent_floor by simp
  with lower show ?thesis by simp
qed

lemma percent_close:
  assumes "i < n"
  shows "\<bar>percent i n - \<lfloor>(of_nat i / of_nat n * 100 :: rat)\<rfloor>\<bar> \<le> 1"
proof -
  define q :: rat where "q = of_nat i / of_nat n"
  define p where "p = round_binary64 q * 100"
  define r where "r = round_binary64 p"
  have e54: "(2::rat) powi (- 54) = 1 / 2 ^ 54" by (simp add: power_int_minus_divide)
  have e47: "(2::rat) powi (- 47) = 1 / 2 ^ 47" by (simp add: power_int_minus_divide)
  from assms have q: "0 \<le> q" "q < 1" by (simp_all add: q_def)
  have q_err: "\<bar>round_binary64 q - q\<bar> \<le> 1 / 2 ^ 54"
  proof (cases "q = 0")
    case True
    then show ?thesis by (simp add: round_binary64_def)
  next
    case False
    with q have "0 < q" and "q < 2 powi (- 1 + 1)" by simp_all
    from round_binary64_close [OF this] have "\<bar>round_binary64 q - q\<bar> \<le> 2 powi (- 54)"
      by simp
    then show ?thesis by (simp only: e54)
  qed
  have p0: "0 \<le> p" unfolding p_def using q(1) by (simp add: round_binary64_nonneg)
  from q have "round_binary64 q \<le> round_binary64 1" by (intro round_binary64_mono) simp_all
  then have p100: "p \<le> 100" by (simp add: p_def round_binary64_one)
  have p_err: "\<bar>r - p\<bar> \<le> 1 / 2 ^ 47"
  proof (cases "p = 0")
    case True
    then show ?thesis by (simp add: r_def round_binary64_def)
  next
    case False
    with p0 p100 have "0 < p" and "p < 2 powi (6 + 1)" by simp_all
    from round_binary64_close [OF this] have "\<bar>r - p\<bar> \<le> 2 powi (- 47)"
      by (simp add: r_def)
    then show ?thesis by (simp only: e47)
  qed
  have "p - q * 100 = (round_binary64 q - q) * 100"
    by (simp add: p_def algebra_simps)
  then have "\<bar>p - q * 100\<bar> = \<bar>(round_binary64 q - q) * 100\<bar>"
    by (rule arg_cong)
  also have "\<dots> = \<bar>round_binary64 q - q\<bar> * \<bar>100\<bar>"
    by (rule abs_mult)
  finally have "\<bar>p - q * 100\<bar> = \<bar>round_binary64 q - q\<bar> * 100"
    by simp
  with q_err have "\<bar>p - q * 100\<bar> \<le> 1 / 2 ^ 54 * 100" by simp
  with p_err have "\<bar>r - q * 100\<bar> \<le> 1 / 2 ^ 47 + 1 / 2 ^ 54 * 100" by linarith
  also have "\<dots> < (1::rat)" by simp
  finally have near: "\<bar>r - q * 100\<bar> < 1" .
  have "percent i n = \<lfloor>r\<rfloor>" by (simp add: percent_floor r_def p_def q_def)
  moreover have "\<bar>\<lfloor>r\<rfloor> - \<lfloor>q * 100\<rfloor>\<bar> \<le> 1"
    using near by linarith
  ultimately show ?thesis by (simp add: q_def)
qed

text \<open>With more than 100 tables the first two progress values are both 0.\<close>

lemma percent_1_of_101: "percent 1 101 = 0"
  by code_simp

lemma percent_repeats_beyond_100:
  assumes "100 < n"
  shows "percent 0 n = 0 \<and> percent 1 n = 0"
proof -
  from assms have "(1 / of_nat n :: rat) \<le> 1 / 101"
    by (simp add: field_simps)
  then have "round_binary64 (1 / of_nat n) \<le> round_binary64 (1 / 101)"
    by (intro round_binary64_mono) simp_all
  moreover have "0 \<le> round_binary64 (1 / of_nat n)"
    by (rule round_binary64_nonneg) simp
  ultimately have "round_binary64 (round_binary64 (1 / of_nat n) * 100)
      \<le> round_binary64 (round_binary64 (1 / 101) * 100)"
    by (intro round_binary64_mono) simp_all
  then have floors: "\<lfloor>round_binary64 (round_binary64 (1 / of_nat n) * 100)\<rfloor>
      \<le> \<lfloor>round_binary64 (round_binary64 (1 / 101) * 100)\<rfloor>"
    by (rule floor_mono)
  have here: "percent 1 n = \<lfloor>round_binary64 (round_binary64 (1 / of_nat n) * 100)\<rfloor>"
    using percent_floor [of 1 n] by simp
  have there: "percent 1 101 = \<lfloor>round_binary64 (round_binary64 (1 / 101) * 100)\<rfloor>"
    using percent_floor [of 1 101] by simp
  from floors have "percent 1 n \<le> percent 1 101"
    by (simp only: here there)
  then have "percent 1 n \<le> 0" by (simp only: percent_1_of_101)
  moreover from assms have "0 \<le> percent 1 n" and "0 \<le> percent 0 n"
    using percent_range [of 1 n] percent_range [of 0 n] by simp_all
  moreover have "percent 0 n \<le> percent 1 n" by (rule percent_mono) simp
  ultimately show ?thesis by simp
qed

subsection \<open>Runs that succeed\<close>

lemma run_tables_succeeds:
  assumes "\<forall>name \<in> set names. \<exists>cur. execute db conn (select_query name) = Inr cur \<and>
             (\<forall>row \<in> set (fetchall cur). length (description cur) \<le> length row)"
    and "\<forall>existing. \<forall>name \<in> set names. \<exists>sheet. check_sheetname lib existing name = Inr sheet"
    and "i + length names \<le> n"
  shows "snd (run_tables db lib None conn n i names s) = None"
  using assms
proof (induction names arbitrary: i s)
  case Nil
  show ?case by simp
next
  case (Cons name names)
  from Cons.prems(3) have n: "n \<noteq> 0" by auto
  from Cons.prems(1) obtain cur where
    cur: "execute db conn (select_query name) = Inr cur"
      "\<forall>row \<in> set (fetchall cur). length (description cur) \<le> length row"
    by auto
  let ?header = "map SqlText (description cur)"
  from cur(1) have sel: "select_table db conn name = Inr (?header # fetchall cur)"
    by (simp add: select_table_def)
  from Cons.prems(2) obtain sheet where
    sheet: "check_sheetname lib (map sheet_name (worksheets (wbook s))) name = Inr sheet"
    by auto
  from cur(2) have wide: "\<forall>row \<in> set (fetchall cur). length ?header \<le> length row" by simp
  note written = write_table_complete [OF sheet wide]
  from Cons.prems have "snd (run_tables db lib None conn n (Suc i) names s1) = None" for s1
    by (intro Cons.IH) simp_all
  with sel written progress_percent [OF n, of i] show ?case
    by (simp add: stopped_def)
qed

lemma run_succeeds:
  assumes "connect db db_file = Inr conn"
    and "execute db conn master_query = Inr data"
    and "clean_names (concat (fetchall data)) = Inr names"
    and "\<forall>name \<in> set names. \<exists>cur. execute db conn (select_query name) = Inr cur \<and>
           (\<forall>row \<in> set (fetchall cur). length (description cur) \<le> length row)"
    and "\<forall>existing. \<forall>name \<in> set names. \<exists>sheet. check_sheetname lib existing name = Inr sheet"
    and "\<forall>wb. store_workbook lib wb = None"
  shows "\<exists>s'. run db lib None db_file save_path = (s', None) \<and>
           ui s' = map (\<lambda>i. Update_prog (percent i (length names))) [0..<length names] @ [Wait, Done]"
proof -
  let ?s0 = "\<lparr>wbook = Workbook save_path, ui = [], printed = []\<rparr>"
  obtain t r where loop: "run_tables db lib None conn (length names) 0 names ?s0 = (t, r)"
    by (cases "run_tables db lib None conn (length names) 0 names ?s0")
  have "snd (run_tables db lib None conn (length names) 0 names ?s0) = None"
    by (rule run_tables_succeeds [OF assms(4,5)]) simp
  with loop have r: "r = None" by simp
  from run_tables_ui [OF loop] r
  have ui: "ui t = map (\<lambda>i. Update_prog (percent i (length names))) [0..<length names]"
    by auto
  from loop r assms(6)
  have "run db lib None db_file save_path =
      (t\<lparr>wbook := wbook t\<lparr>fileclosed := True\<rparr>, ui := ui t @ [Wait, Done]\<rparr>, None)"
    unfolding run_listed [OF assms(1,2,3)] by simp
  with ui show ?thesis by simp
qed

subsection \<open>The numbered tables\<close>

lemma quote_not_in_table_name:
  assumes "k < 676"
  shows "quote \<notin> set (table_name k)"
proof -
  from assms have "k div 26 < 26" by simp
  then have "take_bit 8 (97 + k div 26) = 97 + k div 26"
    by (simp add: take_bit_eq_mod)
  then have first: "char_of (97 + k div 26) \<noteq> quote"
    by (simp add: quote_def char_of_eq_iff)
  have "take_bit 8 (97 + k mod 26) = 97 + k mod 26"
    by (simp add: take_bit_eq_mod)
  then have second: "char_of (97 + k mod 26) \<noteq> quote"
    by (simp add: quote_def char_of_eq_iff)
  from first second show ?thesis
    by (auto simp: table_name_def)
qed

lemma table_name_not_system: "\<not> prefix ''sqlite'' (table_name k)"
proof
  assume "prefix ''sqlite'' (table_name k)"
  then have "length ''sqlite'' \<le> length (table_name k)" by (rule prefix_length_le)
  then show False by (simp add: table_name_def)
qed

lemma map_of_constant:
  "x \<in> fst ` set xs \<Longrightarrow> \<forall>entry \<in> set xs. snd entry = c \<Longrightarrow> map_of xs x = Some c"
  by (induction xs) auto

lemma numbered_db_select:
  assumes "k < n" and "n \<le> 676"
  shows "execute (numbered_db n) conn (select_query (table_name k)) =
           Inr \<lparr>description = [''id''], fetchall = []\<rparr>"
proof -
  let ?tables = "map (\<lambda>k. (table_name k, \<lparr>description = [''id''], fetchall = []\<rparr>)) [0..<n]"
  from assms have "quote \<notin> set (table_name k)" by (intro quote_not_in_table_name) simp
  then have parsed: "parse_select (select_query (table_name k)) = Some (table_name k)"
    by (rule parse_select_plain)
  have other: "select_query (table_name k) \<noteq> master_query"
    by (simp add: select_query_def master_query_def)
  from assms(1) have "table_name k \<in> fst ` set ?tables" by (auto simp: image_iff)
  then have "map_of ?tables (table_name k) = Some \<lparr>description = [''id''], fetchall = []\<rparr>"
    by (rule map_of_constant) auto
  with parsed other show ?thesis by (simp add: numbered_db_def memory_db_def)
qed

lemma run_numbered_db:
  assumes "n \<le> 676"
  shows "\<exists>s'. run (numbered_db n) plain_lib None ''in.db'' ''out.xlsx'' = (s', None) \<and>
           ui s' = map (\<lambda>i. Update_prog (percent i n)) [0..<n] @ [Wait, Done]"
proof -
  let ?data = "\<lparr>description = [''name''], fetchall = map (\<lambda>k. [SqlText (table_name k)]) [0..<n]\<rparr>"
  let ?names = "map table_name [0..<n]"
  have connect: "connect (numbered_db n) ''in.db'' = Inr ()"
    by (simp add: numbered_db_def memory_db_def)
  have catalogue: "execute (numbered_db n) () master_query = Inr ?data"
    by (simp add: numbered_db_def memory_db_def comp_def)
  have "concat (fetchall ?data) = map SqlText ?names"
    by (simp add: comp_def concat_map_singleton)
  moreover have "\<forall>name \<in> set ?names. \<not> prefix ''sqlite'' name"
    by (auto simp: table_name_not_system)
  ultimately have cleaned: "clean_names (concat (fetchall ?data)) = Inr ?names"
    by (simp only: clean_names_user_tables)
  have tables: "\<forall>name \<in> set ?names. \<exists>cur. execute (numbered_db n) () (select_query name) = Inr cur \<and>
      (\<forall>row \<in> set (fetchall cur). length (description cur) \<le> length row)"
    using assms by (auto simp: numbered_db_select)
  have names: "\<forall>existing. \<forall>name \<in> set ?names. \<exists>sheet. check_sheetname plain_lib existing name = Inr sheet"
    by (simp add: plain_lib_def)
  have stored: "\<forall>wb. store_workbook plain_lib wb = None"
    by (simp add: plain_lib_def)
  from run_succeeds [OF connect catalogue cleaned tables names stored, of "''out.xlsx''"]
  show ?thesis by simp
qed

subsection \<open>Progress\<close>

lemma nth_map_upt_append: "i < n \<Longrightarrow> (map f [0..<n] @ rest) ! i = f i"
  by (simp add: nth_append)

lemma take_two_map_upt_append:
  assumes "2 \<le> n"
  shows "take 2 (map f [0..<n] @ rest) = [f 0, f 1]"
proof -
  from assms have "[0..<n] = 0 # 1 # [2..<n]" by (simp add: upt_conv_Cons numeral_2_eq_2)
  then show ?thesis by (simp add: numeral_2_eq_2)
qed

lemma percent_29_of_50: "percent 29 50 = 57"
  by code_simp

lemma percent_0_of_128: "percent 0 128 = 0"
  by code_simp

lemma percent_1_of_128: "percent 1 128 = 0"
  by code_simp

lemma run_ui:
  assumes "connect db db_file = Inr conn"
    and "execute db conn master_query = Inr data"
    and "clean_names (concat (fetchall data)) = Inr names"
  shows "\<exists>m \<le> length names.
           (let progress_signals = map (\<lambda>i. Update_prog (percent i (length names))) [0..<m];
                (s', r) = run db lib stop_before db_file save_path
            in (r \<noteq> None \<and> \<not> fileclosed (wbook s') \<and>
                  (ui s' = progress_signals \<or> (m = length names \<and> ui s' = progress_signals @ [Wait]))) \<or>
               (r = None \<and> fileclosed (wbook s') \<and> m = length names \<and>
                  ui s' = progress_signals @ [Wait, Done]))"
proof -
  let ?s0 = "\<lparr>wbook = Workbook save_path, ui = [], printed = []\<rparr>"
  obtain t r where loop: "run_tables db lib stop_before conn (length names) 0 names ?s0 = (t, r)"
    by (cases "run_tables db lib stop_before conn (length names) 0 names ?s0")
  from run_tables_ui [OF loop] obtain m where
    m: "m \<le> length names" "ui t = map (\<lambda>i. Update_prog (percent i (length names))) [0..<m]"
      "r = None \<longrightarrow> m = length names"
    by auto
  from run_tables_workbook [OF loop] have open_book: "\<not> fileclosed (wbook t)"
    by (auto simp: Workbook_def)
  show ?thesis
  proof (cases r)
    case (Some e)
    with loop have "run db lib stop_before db_file save_path = (t, Some e)"
      unfolding run_listed [OF assms] by simp
    with m open_book show ?thesis by (intro exI [of _ m]) (simp add: Let_def)
  next
    case None
    show ?thesis
    proof (cases "store_workbook lib (wbook t)")
      case (Some e)
      with loop None have "run db lib stop_before db_file save_path =
          (t\<lparr>ui := ui t @ [Wait]\<rparr>, Some e)"
        unfolding run_listed [OF assms] by simp
      with m None open_book show ?thesis by (intro exI [of _ m]) (simp add: Let_def)
    next
      case stored: None
      with loop None have "run db lib stop_before db_file save_path =
          (t\<lparr>wbook := wbook t\<lparr>fileclosed := True\<rparr>, ui := ui t @ [Wait, Done]\<rparr>, None)"
        unfolding run_listed [OF assms] by simp
      with m None show ?thesis by (intro exI [of _ m]) (simp add: Let_def)
    qed
  qed
qed

text \<open>
  Claim C5, as the code has it. The value that the slot receives after table \<open>i\<close> of \<open>N\<close>
  is \<open>i / N * 100\<close> computed in double precision (the quotient rounded to the nearest
  double, its product with 100 rounded again) and cut to an integer. It lies between 0
  and 100 and is at most 1 away from the exact quotient \<open>100 * i / N\<close> cut to an integer.
\<close>

theorem progress_value_after_table:
  assumes "connect db db_file = Inr conn"
    and "execute db conn master_query = Inr data"
    and "clean_names (concat (fetchall data)) = Inr names"
    and "i < length names"
    and "i < length (ui (fst (run db lib stop_before db_file save_path)))"
  shows "ui (fst (run db lib stop_before db_file save_path)) ! i =
           Update_prog (py_int (py_float_mul (round_binary64 (of_nat i / of_nat (length names))) 100)) \<and>
         percent i (length names) =
           py_int (py_float_mul (round_binary64 (of_nat i / of_nat (length names))) 100) \<and>
         0 \<le> percent i (length names) \<and> percent i (length names) \<le> 100 \<and>
         \<bar>percent i (length names) - spec_progress i (length names)\<bar> \<le> 1"
proof -
  obtain s' r where result: "run db lib stop_before db_file save_path = (s', r)"
    by (cases "run db lib stop_before db_file save_path")
  from run_ui [OF assms(1,2,3), of lib stop_before save_path] result obtain m where
    m: "m \<le> length names" and
    ui: "ui s' = map (\<lambda>i. Update_prog (percent i (length names))) [0..<m] \<or>
         m = length names \<and>
           ui s' = map (\<lambda>i. Update_prog (percent i (length names))) [0..<m] @ [Wait] \<or>
         m = length names \<and>
           ui s' = map (\<lambda>i. Update_prog (percent i (length names))) [0..<m] @ [Wait, Done]"
    by (auto simp: Let_def)
  from ui assms(4,5) result have "i < m" by auto
  with ui have "ui s' ! i = Update_prog (percent i (length names))"
    by (auto simp: nth_append)
  with result have "ui (fst (run db lib stop_before db_file save_path)) ! i =
      Update_prog (py_int (py_float_mul (round_binary64 (of_nat i / of_nat (length names))) 100))"
    by (simp add: percent_def)
  moreover from percent_close [OF assms(4)]
  have "\<bar>percent i (length names) - spec_progress i (length names)\<bar> \<le> 1"
    by (simp add: spec_progress_def)
  ultimately show ?thesis
    using percent_range [OF assms(4)] by (simp add: percent_def)
qed

theorem progress_value_after_table_witness:
  "(ui (fst (run demo_db excel_lib None ''in.db'' ''out.xlsx'')) ! 1 =
      Update_prog (py_int (py_float_mul (round_binary64
        (of_nat 1 / of_nat (length [''users'', ''logs'']))) 100)) \<and>
    percent 1 (length [''users'', ''logs'']) =
      py_int (py_float_mul (round_binary64 (of_nat 1 / of_nat (length [''users'', ''logs'']))) 100) \<and>
    0 \<le> percent 1 (length [''users'', ''logs'']) \<and>
    percent 1 (length [''users'', ''logs'']) \<le> 100 \<and>
    \<bar>percent 1 (length [''users'', ''logs'']) - spec_progress 1 (length [''users'', ''logs''])\<bar> \<le> 1) \<and>
   ui (fst (run demo_db excel_lib None ''in.db'' ''out.xlsx'')) ! 1 = Update_prog 50"
proof
  have cleaned: "clean_names (concat (fetchall \<lparr>description = [''name''],
      fetchall = [ [SqlText ''users''], [SqlText ''logs''] ]\<rparr>)) = Inr [''users'', ''logs'']"
    by simp
  have tables: "1 < length [''users'', ''logs'']" by simp
  have emitted: "1 < length (ui (fst (run demo_db excel_lib None ''in.db'' ''out.xlsx'')))"
    by (simp add: run_demo)
  show "ui (fst (run demo_db excel_lib None ''in.db'' ''out.xlsx'')) ! 1 =
      Update_prog (py_int (py_float_mul (round_binary64
        (of_nat 1 / of_nat (length [''users'', ''logs'']))) 100)) \<and>
    percent 1 (length [''users'', ''logs'']) =
      py_int (py_float_mul (round_binary64 (of_nat 1 / of_nat (length [''users'', ''logs'']))) 100) \<and>
    0 \<le> percent 1 (length [''users'', ''logs'']) \<and>
    percent 1 (length [''users'', ''logs'']) \<le> 100 \<and>
    \<bar>percent 1 (length [''users'', ''logs'']) - spec_progress 1 (length [''users'', ''logs''])\<bar> \<le> 1"
    by (rule progress_value_after_table [OF demo_connect demo_catalogue cleaned tables emitted])
  show "ui (fst (run demo_db excel_lib None ''in.db'' ''out.xlsx'')) ! 1 = Update_prog 50"
    by (simp add: run_demo)
qed

text \<open>
  Claim C5 as the specification states it, read in exact arithmetic: the value is
  \<open>i / N * 100\<close> cut to an integer. With 50 tables the value emitted after table 29 is
  57, because \<open>29 / 50\<close> rounds to a double below \<open>0.58\<close> and the product with 100 to a
  double below 58; the exact value is 58.
\<close>

theorem progress_29_of_50_tables:
  "snd (run (numbered_db 50) plain_lib None ''in.db'' ''out.xlsx'') = None \<and>
   ui (fst (run (numbered_db 50) plain_lib None ''in.db'' ''out.xlsx'')) ! 29 = Update_prog 57 \<and>
   spec_progress 29 50 = 58"
proof -
  from run_numbered_db [of 50] obtain s' where
    "run (numbered_db 50) plain_lib None ''in.db'' ''out.xlsx'' = (s', None)"
    "ui s' = map (\<lambda>i. Update_prog (percent i 50)) [0..<50] @ [Wait, Done]"
    by auto
  moreover have "(map (\<lambda>i. Update_prog (percent i 50)) [0..<50] @ [Wait, Done]) ! 29 =
      Update_prog (percent 29 50)"
    by (rule nth_map_upt_append) simp
  moreover have "spec_progress 29 50 = 58" by (simp add: spec_progress_def)
  ultimately show ?thesis by (simp only: fst_conv snd_conv percent_29_of_50 simp_thms)
qed

subsection \<open>Order of the notifications\<close>

text \<open>
  Claim C6, as the code has it. A run that ends without an exception has emitted one
  \<open>update_prog\<close> for each table, in the order of the tables, with values that never
  decrease (they can repeat), then \<open>wait\<close>, and \<open>done\<close> as the last signal, with the
  workbook closed. In any run, \<open>done\<close> is emitted only when \<open>close\<close> has succeeded, and
  then it is the last signal.
\<close>

theorem notifications_in_table_order:
  assumes "connect db db_file = Inr conn"
    and "execute db conn master_query = Inr data"
    and "clean_names (concat (fetchall data)) = Inr names"
  shows "(run db lib stop_before db_file save_path = (s', None) \<longrightarrow>
            ui s' = map (\<lambda>i. Update_prog (percent i (length names))) [0..<length names] @ [Wait, Done] \<and>
            sorted (map (\<lambda>i. percent i (length names)) [0..<length names]) \<and>
            fileclosed (wbook s')) \<and>
         (Done \<in> set (ui (fst (run db lib stop_before db_file save_path))) \<longrightarrow>
            snd (run db lib stop_before db_file save_path) = None \<and>
            fileclosed (wbook (fst (run db lib stop_before db_file save_path))) \<and>
            last (ui (fst (run db lib stop_before db_file save_path))) = Done)"
proof (intro conjI impI)
  assume result: "run db lib stop_before db_file save_path = (s', None)"
  from run_ui [OF assms, of lib stop_before save_path] result
  show "ui s' = map (\<lambda>i. Update_prog (percent i (length names))) [0..<length names] @ [Wait, Done]"
    and "fileclosed (wbook s')"
    by (auto simp: Let_def)
  show "sorted (map (\<lambda>i. percent i (length names)) [0..<length names])"
    by (simp add: sorted_iff_nth_mono percent_mono)
next
  let ?run = "run db lib stop_before db_file save_path"
  assume emitted: "Done \<in> set (ui (fst ?run))"
  obtain s r where result: "?run = (s, r)" by (cases ?run)
  from run_ui [OF assms, of lib stop_before save_path] result obtain m where
    "(r \<noteq> None \<and>
        (ui s = map (\<lambda>i. Update_prog (percent i (length names))) [0..<m] \<or>
         ui s = map (\<lambda>i. Update_prog (percent i (length names))) [0..<m] @ [Wait])) \<or>
     (r = None \<and> fileclosed (wbook s) \<and>
        ui s = map (\<lambda>i. Update_prog (percent i (length names))) [0..<m] @ [Wait, Done])"
    by (auto simp: Let_def)
  with emitted result have "r = None \<and> fileclosed (wbook s) \<and> last (ui s) = Done"
    by auto
  with result show "snd ?run = None" and "fileclosed (wbook (fst ?run))"
    and "last (ui (fst ?run)) = Done"
    by simp_all
qed

theorem notifications_in_table_order_witness:
  "(ui (fst (run demo_db excel_lib None ''in.db'' ''out.xlsx'')) =
      map (\<lambda>i. Update_prog (percent i (length [''users'', ''logs''])))
        [0..<length [''users'', ''logs''] ] @ [Wait, Done] \<and>
    sorted (map (\<lambda>i. percent i (length [''users'', ''logs''])) [0..<length [''users'', ''logs''] ]) \<and>
    fileclosed (wbook (fst (run demo_db excel_lib None ''in.db'' ''out.xlsx'')))) \<and>
   (snd (run demo_db excel_lib None ''in.db'' ''out.xlsx'') = None \<and>
    fileclosed (wbook (fst (run demo_db excel_lib None ''in.db'' ''out.xlsx''))) \<and>
    last (ui (fst (run demo_db excel_lib None ''in.db'' ''out.xlsx''))) = Done) \<and>
   ui (fst (run demo_db excel_lib None ''in.db'' ''out.xlsx'')) =
     [Update_prog 0, Update_prog 50, Wait, Done]"
proof -
  have cleaned: "clean_names (concat (fetchall \<lparr>description = [''name''],
      fetchall = [ [SqlText ''users''], [SqlText ''logs''] ]\<rparr>)) = Inr [''users'', ''logs'']"
    by simp
  have finished: "run demo_db excel_lib None ''in.db'' ''out.xlsx'' =
      (fst (run demo_db excel_lib None ''in.db'' ''out.xlsx''), None)"
    by (simp add: run_demo)
  have emitted: "Done \<in> set (ui (fst (run demo_db excel_lib None ''in.db'' ''out.xlsx'')))"
    by (simp add: run_demo)
  have signals: "ui (fst (run demo_db excel_lib None ''in.db'' ''out.xlsx'')) =
      [Update_prog 0, Update_prog 50, Wait, Done]"
    by (simp add: run_demo)
  from notifications_in_table_order [OF demo_connect demo_catalogue cleaned,
      of excel_lib None "''out.xlsx''" "fst (run demo_db excel_lib None ''in.db'' ''out.xlsx'')"]
    finished emitted signals
  show ?thesis by blast
qed

text \<open>
  Claim C6 as the specification states it: the progress values increase strictly. In an
  uncancelled run over 128 tables the first two signals both carry 0 (\<open>0 / 128 * 100\<close> is
  0 and \<open>1 / 128 * 100\<close> is 0.78125, both exact as doubles).
\<close>

theorem progress_repeats_with_128_tables:
  "snd (run (numbered_db 128) plain_lib None ''in.db'' ''out.xlsx'') = None \<and>
   take 2 (ui (fst (run (numbered_db 128) plain_lib None ''in.db'' ''out.xlsx''))) =
     [Update_prog 0, Update_prog 0]"
proof -
  from run_numbered_db [of 128] obtain s' where
    "run (numbered_db 128) plain_lib None ''in.db'' ''out.xlsx'' = (s', None)"
    "ui s' = map (\<lambda>i. Update_prog (percent i 128)) [0..<128] @ [Wait, Done]"
    by auto
  moreover have "take 2 (map (\<lambda>i. Update_prog (percent i 128)) [0..<128] @ [Wait, Done]) =
      [Update_prog (percent 0 128), Update_prog (percent 1 128)]"
    by (rule take_two_map_upt_append) simp
  ultimately show ?thesis
    by (simp only: fst_conv snd_conv percent_0_of_128 percent_1_of_128 simp_thms)
qed

subsection \<open>Destination path\<close>

lemma set_save_path_appends: "set_save_path p = Inr (p @ ''.xlsx'')"
  by (simp add: set_save_path_def known_extensions_def Let_def)

text \<open>
  Claim C2. The destination path strips a known database extension and appends \<open>.xlsx\<close>.
  The code does not: the extension it compares is \<open>None\<close> unless the last piece of the
  path is a list, which a piece of a string never is, so the stripping branch is dead.
  For \<open>data.db\<close> the code yields \<open>data.db.xlsx\<close>, where the rule gives \<open>data.xlsx\<close>.
\<close>

theorem set_save_path_keeps_known_extension:
  "set_save_path ''data.db'' = Inr ''data.db.xlsx'' \<and> spec_save_path ''data.db'' = ''data.xlsx''"
  by (simp add: set_save_path_def known_extensions_def spec_save_path_def split_def Let_def
      suffix_def)

end
